theory Spec2Isabelle
  imports Main "HOL-Library.Word" "HOL-Library.Sublist"
begin

chapter \<open>gotty: the server's lifecycle and handlers, and the browser client\<close>

text \<open>
  A shallow embedding of \<^verbatim>\<open>server/run_option.go\<close> (the \<^verbatim>\<open>Server\<close> type, \<^verbatim>\<open>New\<close>,
  \<^verbatim>\<open>Run\<close>, \<^verbatim>\<open>setupHandlers\<close>, \<^verbatim>\<open>setupHTTPServer\<close>, \<^verbatim>\<open>URL\<close>, \<^verbatim>\<open>tlsConfig\<close>) and of the
  TypeScript client (\<^verbatim>\<open>js/src/webtty.ts\<close>, \<^verbatim>\<open>js/src/main.ts\<close>).
\<close>

section \<open>JavaScript strings\<close>

text \<open>
  A JavaScript string is a sequence of 16-bit code units. \<open>js\<close> writes an ASCII literal of
  the source as such a string.
\<close>

type_synonym jsstring = "16 word list"

definition js :: "string \<Rightarrow> jsstring" where
  "js s = map of_char s"

section \<open>The server: \<^verbatim>\<open>server/run_option.go\<close>\<close>

subsection \<open>Requests and the websocket upgrader\<close>

text \<open>
  An HTTP request as the handlers see it: the method, the URL path as the client sent it,
  the Origin header, and the credential carried by a Basic Authorization header (\<open>None\<close>
  when the header is absent or is not a Basic one).
\<close>

record request =
  Method :: string
  path :: string
  origin :: "string option"
  basic_credential :: "string option"

text \<open>
  \<^verbatim>\<open>websocket.Upgrader\<close>, with the fields \<^verbatim>\<open>New\<close> sets. \<^verbatim>\<open>CheckOrigin\<close> is a function
  field; when it is nil the library falls back to its same-origin check, which is the
  \<open>None\<close> here.
\<close>

record Upgrader =
  ReadBufferSize :: int
  WriteBufferSize :: int
  Subprotocols :: "string list"
  CheckOrigin :: "(request \<Rightarrow> bool) option"

text \<open>\<^verbatim>\<open>webtty.Protocols\<close> (the client's \<^verbatim>\<open>protocols\<close> constant has the same value).\<close>

definition Protocols :: "string list" where
  "Protocols = [''webtty'']"

text \<open>
  The \<^verbatim>\<open>Server\<close> struct, with the fields that \<^verbatim>\<open>New\<close> sets: the backend factory and the
  options as given, the upgrader, and the two counters (\<^verbatim>\<open>connections\<close>, \<^verbatim>\<open>once\<close>, both
  \<^verbatim>\<open>int64\<close>). \<^verbatim>\<open>New\<close> never fails: its error result is always nil.
\<close>

record ('f, 'o) Server =
  factory :: 'f
  options :: 'o
  upgrader :: Upgrader
  connections :: "64 word"
  once :: "64 word"

definition New :: "'f \<Rightarrow> 'o \<Rightarrow> ('f, 'o) Server" where
  "New fac opts =
     \<lparr> factory = fac,
       options = opts,
       upgrader = \<lparr> ReadBufferSize = 1024, WriteBufferSize = 1024,
                    Subprotocols = Protocols,
                    CheckOrigin = Some (\<lambda>r. True) \<rparr>,
       connections = 0,
       once = 0 \<rparr>"

text \<open>
  The origin decision of \<^verbatim>\<open>Upgrader.Upgrade\<close>: the request is refused (403) when the
  check function returns false. The library's fallback for a nil \<^verbatim>\<open>CheckOrigin\<close> is a
  parameter here (\<open>same_origin\<close>).
\<close>

definition origin_allowed :: "(request \<Rightarrow> bool) \<Rightarrow> Upgrader \<Rightarrow> request \<Rightarrow> bool" where
  "origin_allowed same_origin u r =
     (case CheckOrigin u of None \<Rightarrow> same_origin r | Some check \<Rightarrow> check r)"

subsection \<open>Options and the server's URL\<close>

text \<open>
  The fields of \<^verbatim>\<open>Options\<close> that \<^verbatim>\<open>run_option.go\<close> reads (the struct itself is declared
  elsewhere). \<^verbatim>\<open>Timeout\<close> is a number of seconds.
\<close>

record Options =
  Address :: string
  Port :: string
  PermitWrite :: bool
  Once :: bool
  Timeout :: int
  IndexFile :: string
  EnableBasicAuth :: bool
  Credential :: string
  EnableRandomUrl :: bool
  RandomUrlLength :: int
  EnableTLS :: bool
  TLSCrtFile :: string
  TLSKeyFile :: string
  EnableTLSClientAuth :: bool
  TLSCACrtFile :: string

text \<open>
  \<^verbatim>\<open>Server.URL\<close>: the scheme and the path of the server's URL (the host, joined from address
  and port, plays no part in what follows). The URL is computed once and kept, so the random
  path segment is one string for the server's lifetime: \<open>rnd\<close>, the result of
  \<^verbatim>\<open>randomstring.Generate(RandomUrlLength)\<close>.
\<close>

record URL_parts =
  Scheme :: string
  Path :: string

definition URL :: "Options \<Rightarrow> string \<Rightarrow> URL_parts" where
  "URL opts rnd =
     (let path = (if EnableRandomUrl opts then '''' @ ''/'' @ rnd else '''');
          scheme = (if EnableTLS opts then ''https'' else ''http'')
      in \<lparr> Scheme = scheme, Path = path @ ''/'' \<rparr>)"

subsection \<open>Handlers\<close>

text \<open>
  What a request ends in. \<open>WebSocketSession\<close>: the request was handed to the handler that
  \<^verbatim>\<open>generateHandleWS\<close> builds, which upgrades the connection and runs the session.
  \<open>StaticAsset\<close>: the asset file server answered for this path. \<open>Redirect\<close>: the mux's
  permanent redirect.
\<close>

datatype response =
    Unauthorized
  | NotFound
  | Redirect string
  | StaticAsset string
  | CustomIndex
  | AuthTokenScript
  | WebSocketSession

text \<open>An \<^verbatim>\<open>http.Handler\<close> is what it answers to a request.\<close>

type_synonym handler = "request \<Rightarrow> response"

text \<open>
  The leaf handlers: the asset file server, \<^verbatim>\<open>handleCustomIndex\<close>, \<^verbatim>\<open>handleAuthToken\<close> and
  the handler of \<^verbatim>\<open>generateHandleWS\<close>.
\<close>

definition staticFileHandler :: handler where
  "staticFileHandler r = StaticAsset (path r)"

definition handleCustomIndex :: handler where
  "handleCustomIndex r = CustomIndex"

definition handleAuthToken :: handler where
  "handleAuthToken r = AuthTokenScript"

definition handleWS :: handler where
  "handleWS r = WebSocketSession"

text \<open>
  \<^verbatim>\<open>http.StripPrefix\<close>: the wrapped handler sees the path without the prefix; a path that
  does not start with the prefix is not found.
\<close>

definition StripPrefix :: "string \<Rightarrow> handler \<Rightarrow> handler" where
  "StripPrefix pre h r =
     (if pre = [] then h r
      else if prefix pre (path r) then h (r\<lparr>path := drop (length pre) (path r)\<rparr>)
      else NotFound)"

text \<open>
  \<^verbatim>\<open>path.Clean\<close> on a rooted path: the path is cut at its slashes; empty elements and \<open>.\<close>
  are dropped, \<open>..\<close> drops the element before it (and itself where nothing is before it),
  and what is left is joined again behind a leading slash.
\<close>

definition elements :: "string \<Rightarrow> string list" where
  "elements p =
     foldr (\<lambda>c acc. if c = CHR ''/'' then [] # acc else (c # hd acc) # tl acc) p [[]]"

definition clean_step :: "string list \<Rightarrow> string \<Rightarrow> string list" where
  "clean_step kept e =
     (if e = '''' \<or> e = ''.'' then kept
      else if e = ''..'' then butlast kept
      else kept @ [e])"

fun join_slash :: "string list \<Rightarrow> string" where
  "join_slash [] = ''''"
| "join_slash [e] = e"
| "join_slash (e # f # es) = e @ ''/'' @ join_slash (f # es)"

definition Clean :: "string \<Rightarrow> string" where
  "Clean p = ''/'' @ join_slash (foldl clean_step [] (elements p))"

text \<open>
  \<^verbatim>\<open>cleanPath\<close> of \<^verbatim>\<open>net/http\<close>, the canonical form of a request path: the empty path is
  \<open>/\<close>, a path gets a leading slash if it has none and is cleaned, and a final slash is
  kept.
\<close>

definition cleanPath :: "string \<Rightarrow> string" where
  "cleanPath p =
     (if p = '''' then ''/''
      else (let p = (if hd p \<noteq> CHR ''/'' then ''/'' @ p else p);
                np = Clean p
            in if last p = CHR ''/'' \<and> np \<noteq> ''/'' then np @ ''/'' else np))"

text \<open>
  \<^verbatim>\<open>http.ServeMux\<close>. A request other than \<^verbatim>\<open>CONNECT\<close> whose path is not in the canonical form
  is answered with a permanent redirect to that form; no handler runs. Otherwise the path
  is matched against the patterns: a pattern that ends in \<open>/\<close> names a subtree and matches
  every path it is a prefix of; any other pattern matches the path equal to it. A path
  registered itself wins; a path that is a registered subtree pattern without its final
  \<open>/\<close> is redirected to that pattern; otherwise the longest matching pattern wins, and no
  match is not found.
\<close>

definition pathMatch :: "string \<Rightarrow> string \<Rightarrow> bool" where
  "pathMatch pattern p =
     (if pattern = [] then False
      else if last pattern \<noteq> CHR ''/'' then pattern = p
      else prefix pattern p)"

fun longest_match :: "(string \<times> handler) list \<Rightarrow> string \<Rightarrow> (string \<times> handler) option
    \<Rightarrow> (string \<times> handler) option" where
  "longest_match [] p best = best"
| "longest_match ((k, h) # es) p best =
     longest_match es p
       (if pathMatch k p \<and> (case best of None \<Rightarrow> True | Some (k', h') \<Rightarrow> length k' < length k)
        then Some (k, h) else best)"

definition ServeMux :: "(string \<times> handler) list \<Rightarrow> handler" where
  "ServeMux entries r =
     (if Method r \<noteq> ''CONNECT'' \<and> cleanPath (path r) \<noteq> path r
      then Redirect (cleanPath (path r))
      else (case map_of entries (path r) of
              Some h \<Rightarrow> h r
            | None \<Rightarrow>
                if map_of entries (path r @ ''/'') \<noteq> None then Redirect (path r @ ''/'')
                else (case longest_match entries (path r) None of
                        None \<Rightarrow> NotFound
                      | Some (k, h) \<Rightarrow> h r)))"

text \<open>
  Modelled from the spec: \<^verbatim>\<open>wrapBasicAuth\<close> is not in the source files at hand. The spec's
  Access Gate requires "a transport-level credential exchange (e.g. a challenge/response at
  the HTTP layer preceding the protocol upgrade) matching the configured user/pass; failure
  \<open>\<Rightarrow>\<close> Unauthorized": the wrapped handler runs only for a request whose Basic credential
  is the configured one.
\<close>

definition wrapBasicAuth :: "handler \<Rightarrow> string \<Rightarrow> handler" where
  "wrapBasicAuth h credential r =
     (if basic_credential r = Some credential then h r else Unauthorized)"

text \<open>
  Modelled from the spec: \<^verbatim>\<open>wrapHeaders\<close> and \<^verbatim>\<open>wrapLogger\<close> are not in the source files at
  hand either. The spec gives them no part in admission (its Access Gate has the certificate,
  credential and single-use checks only), so they hand every request to the handler they
  wrap.
\<close>

definition wrapHeaders :: "handler \<Rightarrow> handler" where
  "wrapHeaders h r = h r"

definition wrapLogger :: "handler \<Rightarrow> handler" where
  "wrapLogger h r = h r"

text \<open>
  \<^verbatim>\<open>Server.setupHandlers\<close>, statement by statement: the site mux, the optional Basic
  authentication around it, the headers around that, then a second mux with the site at
  \<open>/\<close> and the websocket handler at \<^verbatim>\<open>url.Path+"ws"\<close>, and the logger around all.
\<close>

definition setupHandlers :: "Options \<Rightarrow> string \<Rightarrow> handler" where
  "setupHandlers opts rnd =
     (let url = URL opts rnd;
          siteMux =
            (if IndexFile opts \<noteq> ''''
             then [(Path url, handleCustomIndex)]
             else [(Path url, StripPrefix (Path url) staticFileHandler)])
            @ [(Path url @ ''js/'', StripPrefix (Path url) staticFileHandler),
               (Path url @ ''favicon.png'', StripPrefix (Path url) staticFileHandler),
               (Path url @ ''auth_token.js'', handleAuthToken)];
          siteHandler = ServeMux siteMux;
          siteHandler = (if EnableBasicAuth opts
                         then wrapBasicAuth siteHandler (Credential opts)
                         else siteHandler);
          siteHandler = wrapHeaders siteHandler;
          wsMux = [(''/'', siteHandler), (Path url @ ''ws'', handleWS)];
          siteHandler = ServeMux wsMux
      in wrapLogger siteHandler)"

subsection \<open>Setting up the HTTP server\<close>

datatype go_error =
    ErrServerClosed
  | Canceled
  | DeadlineExceeded
  | ErrorString string
  | Wrapf string go_error

text \<open>
  \<^verbatim>\<open>Server.tlsConfig\<close>. What the file system holds at the CA certificate path is the
  parameter: the file cannot be read, or its data holds no PEM certificate, or it does.
  \<open>expand\<close> is \<^verbatim>\<open>homedir.Expand\<close>.
\<close>

datatype ca_file = CAUnreadable | CAUnparsable | CAValid

record tls_config =
  ClientCAs :: string
  RequireAndVerifyClientCert :: bool

definition tlsConfig :: "(string \<Rightarrow> string) \<Rightarrow> Options \<Rightarrow> ca_file \<Rightarrow> go_error + tls_config" where
  "tlsConfig expand opts ca =
     (let caFile = expand (TLSCACrtFile opts) in
      case ca of
        CAUnreadable \<Rightarrow> Inl (ErrorString (''Could not open CA crt file '' @ caFile))
      | CAUnparsable \<Rightarrow> Inl (ErrorString (''Could not parse CA crt file data in '' @ caFile))
      | CAValid \<Rightarrow> Inr \<lparr> ClientCAs = caFile, RequireAndVerifyClientCert = True \<rparr>)"

text \<open>\<^verbatim>\<open>Server.setupHTTPServer\<close>: the server's TLS configuration, if any, or the error.\<close>

definition setupHTTPServer ::
    "(string \<Rightarrow> string) \<Rightarrow> Options \<Rightarrow> ca_file \<Rightarrow> go_error + tls_config option" where
  "setupHTTPServer expand opts ca =
     (if EnableTLSClientAuth opts
      then (case tlsConfig expand opts ca of
              Inl err \<Rightarrow> Inl (Wrapf ''failed to setup TLS configuration'' err)
            | Inr cfg \<Rightarrow> Inr (Some cfg))
      else Inr None)"

subsection \<open>\<^verbatim>\<open>Server.Run\<close>\<close>

text \<open>
  \<^verbatim>\<open>Run\<close> starts goroutines and then waits in a \<^verbatim>\<open>select\<close>. The state they share is
  \<^item> \<open>err_var\<close>: the variable \<^verbatim>\<open>err\<close> of \<^verbatim>\<open>Run\<close>, declared with \<^verbatim>\<open>srv\<close>; nil (\<open>None\<close>) once
    the HTTP server is set up. \<^verbatim>\<open>Run\<close> returns it, and the serving goroutine assigns to it
    too (\<^verbatim>\<open>err = srv.ListenAndServe()\<close>, with \<^verbatim>\<open>=\<close>: the closure writes \<^verbatim>\<open>Run\<close>'s variable);
  \<^item> \<open>cctx\<close>: the context \<^verbatim>\<open>cctx\<close> made by \<^verbatim>\<open>context.WithCancel(ctx)\<close>; \<open>None\<close> while it is
    not done, and its \<^verbatim>\<open>Err()\<close> once it is;
  \<^item> \<open>listenErr\<close>: the content of the channel \<^verbatim>\<open>listenErr\<close> (buffered, capacity 1);
  \<^item> \<open>serving\<close>: whether \<^verbatim>\<open>ListenAndServe\<close> (or \<^verbatim>\<open>ListenAndServeTLS\<close>) is still running.
\<close>

record run_state =
  err_var :: "go_error option"
  cctx :: "go_error option"
  listenErr :: "go_error option"
  serving :: bool

definition run_init :: run_state where
  "run_init = \<lparr> err_var = None, cctx = None, listenErr = None, serving = True \<rparr>"

text \<open>
  What can happen while \<^verbatim>\<open>Run\<close> waits:
  \<^item> \<open>TimerFired\<close>: \<^verbatim>\<open>server.timer.C\<close> delivers;
  \<^item> \<open>ParentDone e\<close>: the context \<^verbatim>\<open>ctx\<close> given to \<^verbatim>\<open>Run\<close> is done, with error \<open>e\<close>;
  \<^item> \<open>CancelCalled\<close>: a handler calls the \<^verbatim>\<open>cancel\<close> function that \<^verbatim>\<open>setupHandlers\<close> passed
    to \<^verbatim>\<open>generateHandleWS\<close>;
  \<^item> \<open>GracefulDone\<close>: \<^verbatim>\<open>opts.gracefullCtx\<close> is done;
  \<^item> \<open>ListenFailed e\<close>: \<^verbatim>\<open>ListenAndServe\<close> returns \<open>e\<close> of its own accord.
\<close>

datatype run_event =
    TimerFired
  | ParentDone go_error
  | CancelCalled
  | GracefulDone
  | ListenFailed go_error

text \<open>
  Whether an event can happen at all under the options: the timer exists only when
  \<^verbatim>\<open>Timeout > 0\<close>.
\<close>

fun armed :: "Options \<Rightarrow> run_event \<Rightarrow> bool" where
  "armed opts TimerFired = (0 < Timeout opts)"
| "armed opts ev = True"

text \<open>\<^verbatim>\<open>cancel()\<close>: the first cancellation sets the context's error; later ones do nothing.\<close>

definition cancel :: "run_state \<Rightarrow> run_state" where
  "cancel st = (if cctx st = None then st\<lparr>cctx := Some Canceled\<rparr> else st)"

text \<open>
  The serving goroutine: \<^verbatim>\<open>err = srv.ListenAndServe(); if err != nil { listenErr <- err }\<close>.
  \<^verbatim>\<open>ListenAndServe\<close> returns once, and never nil; its result is assigned to \<^verbatim>\<open>Run\<close>'s \<^verbatim>\<open>err\<close>
  and then sent on the channel.
\<close>

definition listen_returns :: "go_error \<Rightarrow> run_state \<Rightarrow> run_state" where
  "listen_returns e st =
     (if serving st
      then st\<lparr>err_var := Some e, listenErr := Some e, serving := False\<rparr>
      else st)"

text \<open>
  The effect of each event. The timer's goroutine calls \<^verbatim>\<open>cancel()\<close>. The goroutine that
  watches \<^verbatim>\<open>gracefullCtx\<close> calls \<^verbatim>\<open>srv.Shutdown\<close>, upon which \<^verbatim>\<open>ListenAndServe\<close> returns
  \<^verbatim>\<open>http.ErrServerClosed\<close>.
\<close>

fun run_step :: "Options \<Rightarrow> run_state \<Rightarrow> run_event \<Rightarrow> run_state" where
  "run_step opts st TimerFired = (if Timeout opts > 0 then cancel st else st)"
| "run_step opts st (ParentDone e) = (if cctx st = None then st\<lparr>cctx := Some e\<rparr> else st)"
| "run_step opts st CancelCalled = cancel st"
| "run_step opts st GracefulDone = listen_returns ErrServerClosed st"
| "run_step opts st (ListenFailed e) = listen_returns e st"

text \<open>
  The \<^verbatim>\<open>select\<close> of \<^verbatim>\<open>Run\<close>: which case is taken, \<open>None\<close> while neither is ready. With both
  ready Go picks one at random, which is \<open>pick_listen\<close>.
\<close>

datatype select_case = CaseListenErr go_error | CaseDone

definition Run_select :: "bool \<Rightarrow> run_state \<Rightarrow> select_case option" where
  "Run_select pick_listen st =
     (case (listenErr st, cctx st) of
        (None, None) \<Rightarrow> None
      | (Some e, None) \<Rightarrow> Some (CaseListenErr e)
      | (None, Some c) \<Rightarrow> Some CaseDone
      | (Some e, Some c) \<Rightarrow> Some (if pick_listen then CaseListenErr e else CaseDone))"

text \<open>
  The body of the case taken.
  \<^item> \<^verbatim>\<open>case err = <-listenErr\<close>: the value is received into \<^verbatim>\<open>err\<close>; \<^verbatim>\<open>ErrServerClosed\<close> becomes
    nil, anything else calls \<^verbatim>\<open>cancel()\<close>.
  \<^item> \<^verbatim>\<open>case <-cctx.Done()\<close>: \<^verbatim>\<open>srv.Close()\<close>, then \<^verbatim>\<open>err = cctx.Err()\<close>. If \<^verbatim>\<open>ListenAndServe\<close> was
    still running, \<^verbatim>\<open>Close\<close> makes it return \<^verbatim>\<open>ErrServerClosed\<close>, which the serving goroutine
    assigns to the same \<^verbatim>\<open>err\<close>, unsynchronised with \<^verbatim>\<open>Run\<close>'s own assignment: \<open>late_write\<close>
    says that the goroutine's assignment is the later of the two (and comes before \<^verbatim>\<open>Run\<close>
    reads \<^verbatim>\<open>err\<close> to return it).
\<close>

fun after_select :: "bool \<Rightarrow> run_state \<Rightarrow> select_case \<Rightarrow> run_state" where
  "after_select late_write st (CaseListenErr e) =
     (let st = st\<lparr>listenErr := None, err_var := Some e\<rparr> in
      if e = ErrServerClosed then st\<lparr>err_var := None\<rparr> else cancel st)"
| "after_select late_write st CaseDone =
     (let closing = serving st;
          st = (if closing then st\<lparr>listenErr := Some ErrServerClosed, serving := False\<rparr> else st);
          st = st\<lparr>err_var := cctx st\<rparr>
      in if closing \<and> late_write then st\<lparr>err_var := Some ErrServerClosed\<rparr> else st)"

declare after_select.simps [simp del]

text \<open>
  The wait group \<^verbatim>\<open>wsWG\<close> is a counter. A session's handler adds one when the session is
  registered and calls \<^verbatim>\<open>Done\<close> when it ends; the session is named here so that the order of
  the endings can be spoken of, the counter does not see it. \<^verbatim>\<open>Wait\<close> returns as soon as
  the counter is zero: \<open>wsWG_Wait c es\<close> says whether \<^verbatim>\<open>Wait\<close>, called with the counter at
  \<open>c\<close>, has returned by the time the events \<open>es\<close> have happened.
\<close>

datatype 'sid session_event = Registered 'sid | Deregistered 'sid

fun wg_apply :: "int \<Rightarrow> 'sid session_event \<Rightarrow> int" where
  "wg_apply c (Registered s) = c + 1"
| "wg_apply c (Deregistered s) = c - 1"

fun wsWG_Wait :: "int \<Rightarrow> 'sid session_event list \<Rightarrow> bool" where
  "wsWG_Wait c [] = (c = 0)"
| "wsWG_Wait c (e # es) = (if c = 0 then True else wsWG_Wait (wg_apply c e) es)"

text \<open>How many sessions have deregistered in a sequence of session events.\<close>

fun deregistrations :: "'sid session_event list \<Rightarrow> nat" where
  "deregistrations [] = 0"
| "deregistrations (Registered s # es) = deregistrations es"
| "deregistrations (Deregistered s # es) = Suc (deregistrations es)"

text \<open>
  \<^verbatim>\<open>Server.Run\<close>. \<open>evs\<close> are the events up to the moment the \<^verbatim>\<open>select\<close> is decided, \<open>wg\<close> is
  the wait group's counter when \<^verbatim>\<open>Run\<close> reaches \<^verbatim>\<open>wsWG.Wait()\<close>, and \<open>ses\<close> are the session
  events after that. \<^verbatim>\<open>Run\<close> has either returned the value of \<^verbatim>\<open>err\<close> (nil is \<open>None\<close>) or is
  still blocked.
\<close>

datatype run_outcome = Blocked | Returned "go_error option"

definition Run :: "(string \<Rightarrow> string) \<Rightarrow> Options \<Rightarrow> ca_file \<Rightarrow> run_event list \<Rightarrow> bool
    \<Rightarrow> bool \<Rightarrow> int \<Rightarrow> 'sid session_event list \<Rightarrow> run_outcome" where
  "Run expand opts ca evs pick_listen late_write wg ses =
     (case setupHTTPServer expand opts ca of
        Inl e \<Rightarrow> Returned (Some (Wrapf ''failed to setup an HTTP server'' e))
      | Inr srv \<Rightarrow>
          (let st = foldl (run_step opts) run_init evs in
           case Run_select pick_listen st of
             None \<Rightarrow> Blocked
           | Some c \<Rightarrow>
               if wsWG_Wait wg ses
               then Returned (err_var (after_select late_write st c))
               else Blocked))"

subsection \<open>A configuration to run the server on\<close>

text \<open>
  Options as a plain start gives them: no authentication, no TLS, no timeout, the URL path
  \<open>/\<close>.
\<close>

definition plain_options :: Options where
  "plain_options =
     \<lparr> Address = ''0.0.0.0'', Port = ''8080'', PermitWrite = False, Once = False,
       Timeout = 0, IndexFile = '''', EnableBasicAuth = False, Credential = '''',
       EnableRandomUrl = False, RandomUrlLength = 8, EnableTLS = False,
       TLSCrtFile = ''~/.gotty.crt'', TLSKeyFile = ''~/.gotty.key'',
       EnableTLSClientAuth = False, TLSCACrtFile = ''~/.gotty.ca.crt'' \<rparr>"

section \<open>The builtins the client calls\<close>

datatype js_error = URIError | InvalidCharacterError | SyntaxError

subsection \<open>\<^verbatim>\<open>atob\<close>\<close>

text \<open>
  \<^verbatim>\<open>atob\<close> is the forgiving base64 decoding of the HTML standard: ASCII whitespace is removed;
  if the length is then a multiple of four, one or two final \<open>=\<close> are removed; a length
  that leaves remainder one, or a character outside the base64 alphabet, is an
  \<^verbatim>\<open>InvalidCharacterError\<close>; every character then stands for six bits, and the bits left over
  after the last whole byte are dropped. The result is a string whose code units are the
  bytes.
\<close>

definition ascii_whitespace :: "16 word \<Rightarrow> bool" where
  "ascii_whitespace c = (c = 0x09 \<or> c = 0x0A \<or> c = 0x0C \<or> c = 0x0D \<or> c = 0x20)"

definition b64index :: "16 word \<Rightarrow> nat option" where
  "b64index c =
     (let u = unat c in
      if 65 \<le> u \<and> u \<le> 90 then Some (u - 65)
      else if 97 \<le> u \<and> u \<le> 122 then Some (u - 97 + 26)
      else if 48 \<le> u \<and> u \<le> 57 then Some (u - 48 + 52)
      else if u = 43 then Some 62
      else if u = 47 then Some 63
      else None)"

definition strip_padding :: "jsstring \<Rightarrow> jsstring" where
  "strip_padding d =
     (if d \<noteq> [] \<and> last d = 0x3D
      then (let d1 = butlast d in if d1 \<noteq> [] \<and> last d1 = 0x3D then butlast d1 else d1)
      else d)"

fun sextets_bytes :: "nat list \<Rightarrow> nat list" where
  "sextets_bytes (i1 # i2 # i3 # i4 # rest) =
     [i1 * 4 + i2 div 16, (i2 mod 16) * 16 + i3 div 4, (i3 mod 4) * 64 + i4]
       @ sextets_bytes rest"
| "sextets_bytes [i1, i2, i3] = [i1 * 4 + i2 div 16, (i2 mod 16) * 16 + i3 div 4]"
| "sextets_bytes [i1, i2] = [i1 * 4 + i2 div 16]"
| "sextets_bytes [i1] = []"
| "sextets_bytes [] = []"

definition atob :: "jsstring \<Rightarrow> js_error + jsstring" where
  "atob s =
     (let d = filter (\<lambda>c. \<not> ascii_whitespace c) s;
          d = (if length d mod 4 = 0 then strip_padding d else d)
      in if length d mod 4 = 1 then Inl InvalidCharacterError
         else (case those (map b64index d) of
                 None \<Rightarrow> Inl InvalidCharacterError
               | Some ix \<Rightarrow> Inr (map of_nat (sextets_bytes ix))))"

subsection \<open>\<^verbatim>\<open>toString(16)\<close> and \<^verbatim>\<open>slice(-2)\<close>\<close>

definition hexdigit :: "nat \<Rightarrow> 16 word" where
  "hexdigit d = (if d < 10 then of_nat (48 + d) else of_nat (87 + d))"

text \<open>\<^verbatim>\<open>Number.prototype.toString(16)\<close> of a non-negative integer: no leading zeros.\<close>

function toString16 :: "nat \<Rightarrow> jsstring" where
  "toString16 n = (if n < 16 then [hexdigit n] else toString16 (n div 16) @ [hexdigit (n mod 16)])"
  by pat_completeness auto
termination
  by (relation "measure (\<lambda>n. n)") auto

declare toString16.simps [simp del]

text \<open>\<^verbatim>\<open>s.slice(-2)\<close>: the last two code units (all of a shorter string).\<close>

definition slice_last2 :: "jsstring \<Rightarrow> jsstring" where
  "slice_last2 s = drop (length s - 2) s"

subsection \<open>\<^verbatim>\<open>decodeURIComponent\<close>\<close>

text \<open>
  \<^verbatim>\<open>decodeURIComponent\<close> (the \<open>Decode\<close> operation of ECMAScript with an empty reserved set)
  reads its argument from left to right: a code unit other than \<open>%\<close> stands for itself, and
  \<open>%\<close> must be followed by two hexadecimal digits, which give an octet. An octet below
  \<open>0x80\<close> is the character with that code. Any other octet must open a UTF-8 sequence of
  two, three or four octets, all of them written as escapes, the later ones of the form
  \<open>10xxxxxx\<close>, that is the UTF-8 encoding of a code point (no overlong form, no surrogate,
  nothing above \<open>0x10FFFF\<close>); the code point is appended in UTF-16. Everything else is a
  \<^verbatim>\<open>URIError\<close>. Since that is the only error, the escapes are read first here (\<open>unescape\<close>)
  and the octets decoded after (\<open>utf8_units\<close>).
\<close>

definition hexval :: "16 word \<Rightarrow> nat option" where
  "hexval c =
     (let u = unat c in
      if 48 \<le> u \<and> u \<le> 57 then Some (u - 48)
      else if 65 \<le> u \<and> u \<le> 70 then Some (u - 55)
      else if 97 \<le> u \<and> u \<le> 102 then Some (u - 87)
      else None)"

datatype token = Unit "16 word" | Octet nat

fun unescape :: "jsstring \<Rightarrow> token list option" where
  "unescape [] = Some []"
| "unescape (c # s) =
     (if c \<noteq> 0x25 then map_option (Cons (Unit c)) (unescape s)
      else (case s of
              h1 # h2 # r \<Rightarrow>
                (case (hexval h1, hexval h2) of
                   (Some a, Some b) \<Rightarrow> map_option (Cons (Octet (16 * a + b))) (unescape r)
                 | _ \<Rightarrow> None)
            | _ \<Rightarrow> None))"

text \<open>A code point in UTF-16: one code unit below \<open>0x10000\<close>, a surrogate pair from there on.\<close>

definition utf16_units :: "nat \<Rightarrow> jsstring" where
  "utf16_units v =
     (if v < 0x10000 then [of_nat v]
      else [of_nat (((v - 0x10000) div 1024) mod 1024 + 0xD800),
            of_nat ((v - 0x10000) mod 1024 + 0xDC00)])"

definition continuation :: "nat \<Rightarrow> bool" where
  "continuation b = (0x80 \<le> b \<and> b < 0xC0)"

fun utf8_units :: "token list \<Rightarrow> jsstring option" where
  "utf8_units [] = Some []"
| "utf8_units (Unit c # ts) = map_option (Cons c) (utf8_units ts)"
| "utf8_units (Octet b # ts) =
     (if b < 0x80 then map_option (Cons (of_nat b)) (utf8_units ts)
      else if b < 0xC0 then None
      else if b < 0xE0 then
        (case ts of
           Octet b2 # r \<Rightarrow>
             (let v = (b mod 32) * 64 + b2 mod 64 in
              if continuation b2 \<and> 0x80 \<le> v
              then map_option (append (utf16_units v)) (utf8_units r) else None)
         | _ \<Rightarrow> None)
      else if b < 0xF0 then
        (case ts of
           Octet b2 # Octet b3 # r \<Rightarrow>
             (let v = (b mod 16) * 4096 + (b2 mod 64) * 64 + b3 mod 64 in
              if continuation b2 \<and> continuation b3 \<and> 0x800 \<le> v
                   \<and> \<not> (0xD800 \<le> v \<and> v < 0xE000)
              then map_option (append (utf16_units v)) (utf8_units r) else None)
         | _ \<Rightarrow> None)
      else if b < 0xF8 then
        (case ts of
           Octet b2 # Octet b3 # Octet b4 # r \<Rightarrow>
             (let v = (b mod 8) * 262144 + (b2 mod 64) * 4096 + (b3 mod 64) * 64 + b4 mod 64 in
              if continuation b2 \<and> continuation b3 \<and> continuation b4
                   \<and> 0x10000 \<le> v \<and> v < 0x110000
              then map_option (append (utf16_units v)) (utf8_units r) else None)
         | _ \<Rightarrow> None)
      else None)"

definition decodeURIComponent :: "jsstring \<Rightarrow> js_error + jsstring" where
  "decodeURIComponent s =
     (case unescape s of
        None \<Rightarrow> Inl URIError
      | Some ts \<Rightarrow> (case utf8_units ts of None \<Rightarrow> Inl URIError | Some r \<Rightarrow> Inr r))"

subsection \<open>JSON values\<close>

text \<open>
  The values \<^verbatim>\<open>JSON.parse\<close> returns and \<^verbatim>\<open>JSON.stringify\<close> takes, and \<^verbatim>\<open>undefined\<close>, the value
  of a field never assigned. Numbers are integers here: the numbers of the protocol are
  seconds, columns and rows. \<^verbatim>\<open>JSON.parse\<close> and \<^verbatim>\<open>JSON.stringify\<close> themselves are parameters,
  and so is the conversion to a number of a string, an array or an object.
\<close>

datatype jsvalue =
    JUndefined
  | JNull
  | JBool bool
  | JNum int
  | JStr jsstring
  | JArr "jsvalue list"
  | JObj "(jsstring \<times> jsvalue) list"

record builtins =
  JSON_parse :: "jsstring \<Rightarrow> js_error + jsvalue"
  JSON_stringify :: "jsvalue \<Rightarrow> jsstring"
  ToNumber_other :: "jsvalue \<Rightarrow> int option"

text \<open>\<^verbatim>\<open>ToNumber\<close>, as the operators \<^verbatim>\<open>>\<close> and \<^verbatim>\<open>*\<close> apply it; \<open>None\<close> is NaN.\<close>

fun ToNumber :: "builtins \<Rightarrow> jsvalue \<Rightarrow> int option" where
  "ToNumber bi JUndefined = None"
| "ToNumber bi JNull = Some 0"
| "ToNumber bi (JBool b) = Some (if b then 1 else 0)"
| "ToNumber bi (JNum n) = Some n"
| "ToNumber bi v = ToNumber_other bi v"

section \<open>The server's side of the Output frame\<close>

text \<open>
  Modelled from the spec: the server's encoder of Output frames is not in the source files at
  hand. The spec makes the payload "a byte-safe text encoding (binary-safe through a
  reversible text transform)" after the one-character kind; the transform that the client's
  \<^verbatim>\<open>atob\<close> reverses is base64 with the standard alphabet and \<open>=\<close> padding.
\<close>

definition b64char :: "nat \<Rightarrow> 16 word" where
  "b64char i =
     (if i < 26 then of_nat (65 + i)
      else if i < 52 then of_nat (97 + (i - 26))
      else if i < 62 then of_nat (48 + (i - 52))
      else if i = 62 then 43
      else 47)"

fun base64_encode :: "8 word list \<Rightarrow> jsstring" where
  "base64_encode (a # b # c # rest) =
     [b64char (unat a div 4), b64char ((unat a mod 4) * 16 + unat b div 16),
      b64char ((unat b mod 16) * 4 + unat c div 64), b64char (unat c mod 64)]
       @ base64_encode rest"
| "base64_encode [a, b] =
     [b64char (unat a div 4), b64char ((unat a mod 4) * 16 + unat b div 16),
      b64char ((unat b mod 16) * 4), 0x3D]"
| "base64_encode [a] =
     [b64char (unat a div 4), b64char ((unat a mod 4) * 16), 0x3D, 0x3D]"
| "base64_encode [] = []"

definition encode_Output :: "8 word list \<Rightarrow> jsstring" where
  "encode_Output b = js ''1'' @ base64_encode b"

text \<open>
  Text as bytes: the UTF-8 encoding of a code point, and what a code point of a text may be
  (a Unicode scalar value: no surrogate, nothing above \<open>0x10FFFF\<close>).
\<close>

definition scalar_value :: "nat \<Rightarrow> bool" where
  "scalar_value v = (v < 0xD800 \<or> (0xE000 \<le> v \<and> v < 0x110000))"

definition utf8_octets :: "nat \<Rightarrow> nat list" where
  "utf8_octets v =
     (if v < 0x80 then [v]
      else if v < 0x800 then [0xC0 + v div 64, 0x80 + v mod 64]
      else if v < 0x10000 then
        [0xE0 + v div 4096, 0x80 + (v div 64) mod 64, 0x80 + v mod 64]
      else
        [0xF0 + v div 262144, 0x80 + (v div 4096) mod 64,
         0x80 + (v div 64) mod 64, 0x80 + v mod 64])"

definition utf8_encode :: "nat \<Rightarrow> 8 word list" where
  "utf8_encode v = map of_nat (utf8_octets v)"

text \<open>
  The base64 text of a byte sequence in two parts: the six-bit values of its characters, and
  the number of \<open>=\<close> that pad it.
\<close>

fun sextets :: "8 word list \<Rightarrow> nat list" where
  "sextets (a # b # c # rest) =
     [unat a div 4, (unat a mod 4) * 16 + unat b div 16,
      (unat b mod 16) * 4 + unat c div 64, unat c mod 64] @ sextets rest"
| "sextets [a, b] = [unat a div 4, (unat a mod 4) * 16 + unat b div 16, (unat b mod 16) * 4]"
| "sextets [a] = [unat a div 4, (unat a mod 4) * 16]"
| "sextets [] = []"

fun padding :: "8 word list \<Rightarrow> nat" where
  "padding (a # b # c # rest) = padding rest"
| "padding [a, b] = 1"
| "padding [a] = 2"
| "padding [] = 0"

section \<open>The browser client: \<^verbatim>\<open>js/src/webtty.ts\<close>\<close>

text \<open>The message kinds, client to server and server to client.\<close>

definition protocols :: "jsstring list" where
  "protocols = [js ''webtty'']"

definition InputUnknown :: jsstring where "InputUnknown = js ''0''"
definition Input :: jsstring where "Input = js ''1''"
definition Ping :: jsstring where "Ping = js ''2''"
definition ResizeTerminal :: jsstring where "ResizeTerminal = js ''3''"

definition UnknownOutput :: jsstring where "UnknownOutput = js ''0''"
definition Output :: jsstring where "Output = js ''1''"
definition Pong :: jsstring where "Pong = js ''2''"
definition SetWindowTitle :: jsstring where "SetWindowTitle = js ''3''"
definition SetPreferences :: jsstring where "SetPreferences = js ''4''"
definition SetReconnect :: jsstring where "SetReconnect = js ''5''"

text \<open>
  The fields of \<^verbatim>\<open>WebTTY\<close> that hold data. The constructor does not assign \<^verbatim>\<open>reconnect\<close>,
  which is \<^verbatim>\<open>undefined\<close> until a \<^verbatim>\<open>SetReconnect\<close> message stores a value.
\<close>

record WebTTY =
  args :: jsstring
  authToken :: jsstring
  reconnect :: jsvalue

definition WebTTY_new :: "jsstring \<Rightarrow> jsstring \<Rightarrow> WebTTY" where
  "WebTTY_new a t = \<lparr> args = a, authToken = t, reconnect = JUndefined \<rparr>"

text \<open>
  What the controller calls on its collaborators: the connection (named by the order in
  which the factory created it), the terminal, the console and the window's timers.

  The function given to \<^verbatim>\<open>setTimeout\<close> is named by an identifier, and an identifier is
  looked up in the scopes around it. \<open>ControllerOpen\<close> is the method \<^verbatim>\<open>open\<close> of the
  \<^verbatim>\<open>WebTTY\<close> object (\<^verbatim>\<open>this.open\<close>); \<open>GlobalOpen\<close> is the global function \<^verbatim>\<open>open\<close> of the window
  (\<^verbatim>\<open>window.open\<close>).
\<close>

datatype callee = ControllerOpen | GlobalOpen

datatype call =
    ConnectionOpen nat
  | ConnectionSend nat jsstring
  | TermWrite jsstring
  | TermShowMessage jsstring int
  | TermSetWindowTitle jsstring
  | TermSetPreferences jsvalue
  | ConsoleLog jsvalue
  | SetTimeout callee int

text \<open>The first message on a connection, sent by the \<^verbatim>\<open>onOpen\<close> callback.\<close>

definition handshake :: "builtins \<Rightarrow> WebTTY \<Rightarrow> jsstring" where
  "handshake bi w =
     JSON_stringify bi (JObj [(js ''Arguments'', JStr (args w)),
                              (js ''AuthToken'', JStr (authToken w))])"

text \<open>The callbacks that \<^verbatim>\<open>onOpen\<close> registers with the terminal, for connection \<open>c\<close>.\<close>

definition onResize_callback :: "builtins \<Rightarrow> nat \<Rightarrow> int \<Rightarrow> int \<Rightarrow> call list" where
  "onResize_callback bi c columns rows =
     [ConnectionSend c
        (ResizeTerminal @ JSON_stringify bi (JObj [(js ''columns'', JNum columns),
                                                  (js ''rows'', JNum rows)]))]"

definition onInput_callback :: "nat \<Rightarrow> jsstring \<Rightarrow> call list" where
  "onInput_callback c input = [ConnectionSend c (Input @ input)]"

text \<open>
  The Output case of the \<^verbatim>\<open>onReceive\<close> callback: \<^verbatim>\<open>atob\<close>, every code unit of its result
  written as \<open>%\<close> and two hexadecimal digits, the pieces joined, and \<^verbatim>\<open>decodeURIComponent\<close>
  of that.
\<close>

definition percent_escape :: "16 word \<Rightarrow> jsstring" where
  "percent_escape c = js ''%'' @ slice_last2 (js ''00'' @ toString16 (unat c))"

definition decode_Output_payload :: "jsstring \<Rightarrow> js_error + jsstring" where
  "decode_Output_payload payload =
     (case atob payload of
        Inl e \<Rightarrow> Inl e
      | Inr bytes \<Rightarrow> decodeURIComponent (concat (map percent_escape bytes)))"

text \<open>
  The \<^verbatim>\<open>onReceive\<close> callback: the controller afterwards and the calls made, or the exception
  thrown (in every case before anything is called or stored). \<^verbatim>\<open>data[0]\<close> of an empty string
  is \<^verbatim>\<open>undefined\<close>, which equals no case label; a \<^verbatim>\<open>switch\<close> without \<^verbatim>\<open>default\<close> then does
  nothing.
\<close>

definition onReceive :: "builtins \<Rightarrow> WebTTY \<Rightarrow> jsstring \<Rightarrow> js_error + WebTTY \<times> call list" where
  "onReceive bi w data =
     (let payload = drop 1 data; kind = take 1 data in
      if kind = Output then
        (case decode_Output_payload payload of
           Inl e \<Rightarrow> Inl e
         | Inr text \<Rightarrow> Inr (w, [TermWrite text]))
      else if kind = Pong then Inr (w, [])
      else if kind = SetWindowTitle then Inr (w, [TermSetWindowTitle payload])
      else if kind = SetPreferences then
        (case JSON_parse bi payload of
           Inl e \<Rightarrow> Inl e
         | Inr preferences \<Rightarrow> Inr (w, [TermSetPreferences preferences]))
      else if kind = SetReconnect then
        (case JSON_parse bi payload of
           Inl e \<Rightarrow> Inl e
         | Inr autoReconnect \<Rightarrow>
             Inr (w\<lparr>reconnect := autoReconnect\<rparr>, [ConsoleLog autoReconnect]))
      else Inr (w, []))"

text \<open>
  The \<^verbatim>\<open>onClose\<close> callback. In \<^verbatim>\<open>setTimeout(open, this.reconnect * 1000)\<close> the identifier
  \<^verbatim>\<open>open\<close> stands in an arrow function inside a method of a class in a module: none of these
  scopes declares \<^verbatim>\<open>open\<close> (a method is a property of the object, not a variable; the module
  declares constants, interfaces and the class only), so it is the global \<^verbatim>\<open>open\<close>.
\<close>

definition onClose :: "builtins \<Rightarrow> WebTTY \<Rightarrow> call list" where
  "onClose bi w =
     TermShowMessage (js ''disconnected'') 0 #
     (case ToNumber bi (reconnect w) of
        None \<Rightarrow> []
      | Some n \<Rightarrow> if n > 0 then [SetTimeout GlobalOpen (n * 1000)] else [])"

text \<open>
  The page around the controller: the connections the factory has created so far (numbered
  from 0), the callbacks registered with the terminal (each sends on the connection it was
  registered for), and every call made so far, in order.
\<close>

record page =
  controller :: WebTTY
  created :: nat
  resizeCallbacks :: "nat list"
  inputCallbacks :: "nat list"
  calls :: "call list"

definition new_page :: "WebTTY \<Rightarrow> page" where
  "new_page w = \<lparr> controller = w, created = 0, resizeCallbacks = [], inputCallbacks = [],
                   calls = [] \<rparr>"

text \<open>
  \<^verbatim>\<open>WebTTY.open\<close>: a new connection is created, the three callbacks are registered on it
  (they are \<open>onOpen\<close>, \<open>onReceive\<close> and \<open>onClose\<close> of \<open>page_step\<close> below), and it is opened.
\<close>

definition WebTTY_open :: "page \<Rightarrow> page" where
  "WebTTY_open p =
     p\<lparr> created := Suc (created p), calls := calls p @ [ConnectionOpen (created p)] \<rparr>"

text \<open>
  What happens on the page: a connection opens, receives a message or closes, the terminal
  reports input or a new size, or \<^verbatim>\<open>open()\<close> is called on the controller again.
\<close>

datatype page_event =
    ConnOpened nat
  | ConnReceived nat jsstring
  | ConnClosed nat
  | TermInput jsstring
  | TermResized int int
  | OpenCalled

fun page_step :: "builtins \<Rightarrow> page \<Rightarrow> page_event \<Rightarrow> page" where
  "page_step bi p (ConnOpened c) =
     (if c < created p
      then p\<lparr> calls := calls p @ [ConnectionSend c (handshake bi (controller p))],
               resizeCallbacks := resizeCallbacks p @ [c],
               inputCallbacks := inputCallbacks p @ [c] \<rparr>
      else p)"
| "page_step bi p (ConnReceived c data) =
     (if c < created p
      then (case onReceive bi (controller p) data of
              Inl e \<Rightarrow> p
            | Inr (w, cs) \<Rightarrow> p\<lparr> controller := w, calls := calls p @ cs \<rparr>)
      else p)"
| "page_step bi p (ConnClosed c) =
     (if c < created p then p\<lparr> calls := calls p @ onClose bi (controller p) \<rparr> else p)"
| "page_step bi p (TermInput input) =
     p\<lparr> calls := calls p @ concat (map (\<lambda>c. onInput_callback c input) (inputCallbacks p)) \<rparr>"
| "page_step bi p (TermResized columns rows) =
     p\<lparr> calls := calls p
          @ concat (map (\<lambda>c. onResize_callback bi c columns rows) (resizeCallbacks p)) \<rparr>"
| "page_step bi p OpenCalled = WebTTY_open p"

text \<open>The bodies sent on connection \<open>c\<close>, in order.\<close>

fun sent_on :: "nat \<Rightarrow> call list \<Rightarrow> jsstring list" where
  "sent_on c [] = []"
| "sent_on c (ConnectionSend c' body # cs) =
     (if c' = c then body # sent_on c cs else sent_on c cs)"
| "sent_on c (x # cs) = sent_on c cs"

text \<open>
  Builtins to run the controller on: a \<^verbatim>\<open>JSON.parse\<close> that knows the texts \<open>5\<close> and \<open>0\<close>,
  and a \<^verbatim>\<open>JSON.stringify\<close> that knows the handshake of empty arguments and an 80 by 24
  terminal.
\<close>

definition sample_builtins :: builtins where
  "sample_builtins =
     \<lparr> JSON_parse = (\<lambda>s. if s = js ''5'' then Inr (JNum 5)
                          else if s = js ''0'' then Inr (JNum 0)
                          else Inl SyntaxError),
       JSON_stringify = (\<lambda>v. case v of
            JObj [(k1, JStr a), (k2, JStr b)] \<Rightarrow> js ''{\"Arguments\":\"\",\"AuthToken\":\"\"}''
          | _ \<Rightarrow> js ''{\"columns\":80,\"rows\":24}''),
       ToNumber_other = (\<lambda>v. None) \<rparr>"

section \<open>The browser client: \<^verbatim>\<open>js/src/main.ts\<close>\<close>

text \<open>The fields of \<^verbatim>\<open>window.location\<close>.\<close>

record location =
  protocol :: jsstring
  hostname :: jsstring
  port :: jsstring
  pathname :: jsstring
  search :: jsstring

text \<open>
  What \<^verbatim>\<open>main.ts\<close> sets up: the URL and the protocols given to the connection factory, and
  the controller, on which it then calls \<^verbatim>\<open>open()\<close>.
\<close>

record main_setup =
  factory_url :: jsstring
  factory_protocols :: "jsstring list"
  wt :: WebTTY

text \<open>
  The module body of \<^verbatim>\<open>main.ts\<close>: nothing happens when the page has no element
  \<^verbatim>\<open>"terminal"\<close> (\<open>elem\<close> is \<open>None\<close>); otherwise the controller is set up and opened.
\<close>

definition main :: "'e option \<Rightarrow> location \<Rightarrow> main_setup option" where
  "main elem loc =
     (case elem of
        None \<Rightarrow> None
      | Some e \<Rightarrow>
          let httpsEnabled = (protocol loc = js ''https:'');
              url = (if httpsEnabled then js ''wss://'' else js ''ws://'')
                      @ hostname loc @ js '':8080'' @ pathname loc @ js ''ws'';
              args = search loc
          in Some \<lparr> factory_url = url, factory_protocols = protocols,
                    wt = WebTTY_new args (js '''') \<rparr>)"

text \<open>
  Reading a URL back: the scheme is what precedes the first \<open>:\<close>, and the authority is what
  stands between the \<open>//\<close> after the scheme and the next \<open>/\<close>.
\<close>

definition url_scheme :: "jsstring \<Rightarrow> jsstring" where
  "url_scheme u = takeWhile (\<lambda>c. c \<noteq> of_char CHR '':'') u"

definition url_authority :: "jsstring \<Rightarrow> jsstring" where
  "url_authority u =
     takeWhile (\<lambda>c. c \<noteq> of_char CHR ''/'')
       (drop 2 (dropWhile (\<lambda>c. c \<noteq> of_char CHR ''/'') u))"

section \<open>Properties of the origin check and of the client's URL\<close>

text \<open>
  C9. The upgrader that \<^verbatim>\<open>New\<close> builds accepts every request at the origin check: whatever
  the request (and so whatever its Origin header), and whatever the library's fallback
  check would say, the check returns true.
\<close>

theorem New_CheckOrigin_always_true:
  "origin_allowed same_origin (upgrader (New fac opts)) r = True
   \<and> (\<exists>check. CheckOrigin (upgrader (New fac opts)) = Some check \<and> check r = True)"
  by (simp add: origin_allowed_def New_def)

lemma takeWhile_append_stop:
  "\<forall>x\<in>set xs. P x \<Longrightarrow> \<not> P y \<Longrightarrow> takeWhile P (xs @ y # ys) = xs"
  by (induction xs) auto

lemma url_authority_ws:
  assumes "of_char CHR ''/'' \<notin> set h"
  shows "url_authority (js ''ws://'' @ h @ js '':8080'' @ of_char CHR ''/'' # rest)
           = h @ js '':8080''"
proof -
  have "\<forall>x\<in>set (h @ js '':8080''). x \<noteq> (of_char CHR ''/'' :: 16 word)"
    using assms by (auto simp: js_def)
  then have "takeWhile (\<lambda>c. c \<noteq> of_char CHR ''/'') ((h @ js '':8080'') @ of_char CHR ''/'' # rest)
               = h @ js '':8080''"
    by (rule takeWhile_append_stop) simp
  then show ?thesis
    by (simp add: url_authority_def js_def)
qed

lemma url_authority_wss:
  assumes "of_char CHR ''/'' \<notin> set h"
  shows "url_authority (js ''wss://'' @ h @ js '':8080'' @ of_char CHR ''/'' # rest)
           = h @ js '':8080''"
proof -
  have "\<forall>x\<in>set (h @ js '':8080''). x \<noteq> (of_char CHR ''/'' :: 16 word)"
    using assms by (auto simp: js_def)
  then have "takeWhile (\<lambda>c. c \<noteq> of_char CHR ''/'') ((h @ js '':8080'') @ of_char CHR ''/'' # rest)
               = h @ js '':8080''"
    by (rule takeWhile_append_stop) simp
  then show ?thesis
    by (simp add: url_authority_def js_def)
qed

text \<open>
  C10. When the page has the terminal element, the URL given to the connection factory is
  \<open>ws://\<close> or \<open>wss://\<close>, the page's hostname, \<open>:8080\<close>, the page's path and \<open>ws\<close>. Its
  scheme is \<open>wss\<close> exactly when the page's protocol is \<open>https:\<close>; the page's own port is not
  read (changing it changes nothing); and for a hostname without \<open>/\<close> and a path that starts
  with \<open>/\<close>, the authority of the URL is the hostname followed by \<open>:8080\<close>.
\<close>

theorem main_url_port_8080:
  assumes "main (Some e) loc = Some s"
  shows "factory_url s = (if protocol loc = js ''https:'' then js ''wss://'' else js ''ws://'')
                   @ hostname loc @ js '':8080'' @ pathname loc @ js ''ws''
       \<and> (url_scheme (factory_url s) = js ''wss'' \<longleftrightarrow> protocol loc = js ''https:'')
       \<and> (url_scheme (factory_url s) = js ''ws'' \<longleftrightarrow> protocol loc \<noteq> js ''https:'')
       \<and> main (Some e) (loc\<lparr>port := p\<rparr>) = main (Some e) loc
       \<and> (of_char CHR ''/'' \<notin> set (hostname loc) \<and> pathname loc = of_char CHR ''/'' # rest
            \<longrightarrow> url_authority (factory_url s) = hostname loc @ js '':8080'')"
proof -
  from assms have u: "factory_url s = (if protocol loc = js ''https:'' then js ''wss://'' else js ''ws://'')
                   @ hostname loc @ js '':8080'' @ pathname loc @ js ''ws''"
    by (auto simp: main_def Let_def)
  have s1: "url_scheme (factory_url s) = js ''wss'' \<longleftrightarrow> protocol loc = js ''https:''"
    unfolding u by (simp add: url_scheme_def js_def)
  have s2: "url_scheme (factory_url s) = js ''ws'' \<longleftrightarrow> protocol loc \<noteq> js ''https:''"
    unfolding u by (simp add: url_scheme_def js_def)
  have p: "main (Some e) (loc\<lparr>port := p\<rparr>) = main (Some e) loc"
    by (simp add: main_def)
  have a: "url_authority (factory_url s) = hostname loc @ js '':8080''"
    if "of_char CHR ''/'' \<notin> set (hostname loc)" "pathname loc = of_char CHR ''/'' # rest"
    using that url_authority_ws [of "hostname loc" "rest @ js ''ws''"]
      url_authority_wss [of "hostname loc" "rest @ js ''ws''"]
    unfolding u by (simp split: if_splits)
  from u s1 s2 p a show ?thesis by blast
qed

theorem main_url_port_8080_witness:
  "main (Some ()) \<lparr> protocol = js ''https:'', hostname = js ''example.org'', port = js ''443'',
       pathname = js ''/'', search = js '''' \<rparr>
     = Some \<lparr> factory_url = js ''wss://example.org:8080/ws'', factory_protocols = [js ''webtty''],
              wt = \<lparr> args = js '''', authToken = js '''', reconnect = JUndefined \<rparr> \<rparr>
   \<and> url_scheme (js ''wss://example.org:8080/ws'') = js ''wss''
   \<and> url_authority (js ''wss://example.org:8080/ws'') = js ''example.org:8080''"
proof -
  let ?loc = "\<lparr> protocol = js ''https:'', hostname = js ''example.org'', port = js ''443'',
       pathname = js ''/'', search = js '''' \<rparr>"
  let ?s = "\<lparr> factory_url = js ''wss://example.org:8080/ws'', factory_protocols = [js ''webtty''],
              wt = \<lparr> args = js '''', authToken = js '''', reconnect = JUndefined \<rparr> \<rparr>"
  have m: "main (Some ()) ?loc = Some ?s"
    by (simp add: main_def js_def protocols_def WebTTY_new_def)
  have h: "of_char CHR ''/'' \<notin> set (hostname ?loc)"
    by (simp add: js_def)
  have p: "pathname ?loc = of_char CHR ''/'' # []"
    by (simp add: js_def)
  have a: "js ''example.org'' @ js '':8080'' = js ''example.org:8080''"
    by (simp add: js_def)
  note t = main_url_port_8080 [OF m, of "js ''443''" "[]"]
  from t have "url_scheme (factory_url ?s) = js ''wss'' \<longleftrightarrow> protocol ?loc = js ''https:''"
    by blast
  then have sc: "url_scheme (js ''wss://example.org:8080/ws'') = js ''wss''"
    by simp
  from t h p have "url_authority (factory_url ?s) = hostname ?loc @ js '':8080''"
    by blast
  with a have au: "url_authority (js ''wss://example.org:8080/ws'') = js ''example.org:8080''"
    by simp
  from m sc au show ?thesis by blast
qed

section \<open>Properties of the server\<close>

subsection \<open>Basic authentication and the websocket endpoint\<close>

lemma wsPath_facts:
  "Path (URL opts rnd) @ ''ws'' \<noteq> ''/''"
  "p @ ''/'' \<noteq> Path (URL opts rnd) @ ''ws''"
  "Path (URL opts rnd) \<noteq> []"
  "last (Path (URL opts rnd) @ ''ws'') \<noteq> CHR ''/''"
  by (auto simp: URL_def Let_def)

lemma cleanPath_rooted: "prefix ''/'' (cleanPath p)"
  by (simp add: cleanPath_def Clean_def Let_def)

lemma cleanPath_examples:
  "cleanPath ''/ws'' = ''/ws''"
  "cleanPath ''/auth_token.js'' = ''/auth_token.js''"
  "cleanPath ''//ws'' = ''/ws''"
  "cleanPath ''/js/../ws'' = ''/ws''"
  by (simp_all add: cleanPath_def Clean_def elements_def clean_step_def)

text \<open>
  C1, as stated, fails: with Basic authentication enabled, a request for \<open>/ws\<close> that
  carries no credential at all is handed to the websocket handler.
\<close>

theorem ws_endpoint_without_credential:
  "setupHandlers (plain_options\<lparr>EnableBasicAuth := True, Credential := ''user:pass''\<rparr>) ''''
     \<lparr> Method = ''GET'', path = ''/ws'', origin = None, basic_credential = None \<rparr>
     = WebSocketSession"
  by (simp add: plain_options_def setupHandlers_def URL_def ServeMux_def wrapLogger_def
      handleWS_def cleanPath_examples)

text \<open>
  C1, amended. With Basic authentication enabled, take a request without the configured
  credential. If its path is in the canonical form, it is refused as Unauthorized at every
  path but one: the websocket endpoint \<^verbatim>\<open>url.Path+"ws"\<close>, which is registered on the outer
  mux, outside the authentication wrapper, and is handed to the websocket handler without
  any credential check. If its path is not in the canonical form (and the method is not
  \<^verbatim>\<open>CONNECT\<close>), the outer mux redirects it to the canonical form; no handler runs and no
  credential is checked.
\<close>

theorem basic_auth_guards_site_only:
  assumes "EnableBasicAuth opts" "basic_credential r \<noteq> Some (Credential opts)"
  shows "(cleanPath (path r) = path r \<longrightarrow>
            setupHandlers opts rnd r =
              (if path r = Path (URL opts rnd) @ ''ws'' then WebSocketSession else Unauthorized))
       \<and> (Method r \<noteq> ''CONNECT'' \<and> cleanPath (path r) \<noteq> path r \<longrightarrow>
            setupHandlers opts rnd r = Redirect (cleanPath (path r)))"
proof -
  have canonical: "setupHandlers opts rnd r =
      (if path r = Path (URL opts rnd) @ ''ws'' then WebSocketSession else Unauthorized)"
    if c: "cleanPath (path r) = path r"
  proof -
    from cleanPath_rooted [of "path r"] c have p: "prefix ''/'' (path r)" by simp
    show ?thesis
      using assms p c wsPath_facts [where opts = opts and rnd = rnd]
      apply (simp add: setupHandlers_def Let_def ServeMux_def wrapLogger_def wrapHeaders_def
          wrapBasicAuth_def handleWS_def pathMatch_def)
      apply (auto simp: prefix_def split: option.splits)
      done
  qed
  have other: "setupHandlers opts rnd r = Redirect (cleanPath (path r))"
    if "Method r \<noteq> ''CONNECT''" "cleanPath (path r) \<noteq> path r"
    using that by (simp add: setupHandlers_def Let_def ServeMux_def wrapLogger_def)
  from canonical other show ?thesis by blast
qed

theorem basic_auth_guards_site_only_witness:
  "setupHandlers (plain_options\<lparr>EnableBasicAuth := True, Credential := ''user:pass''\<rparr>) ''''
     \<lparr> Method = ''GET'', path = ''/auth_token.js'', origin = None,
       basic_credential = Some ''user:wrong'' \<rparr>
     = Unauthorized
   \<and> setupHandlers (plain_options\<lparr>EnableBasicAuth := True, Credential := ''user:pass''\<rparr>) ''''
     \<lparr> Method = ''GET'', path = ''/ws'', origin = None,
       basic_credential = Some ''user:wrong'' \<rparr>
     = WebSocketSession
   \<and> setupHandlers (plain_options\<lparr>EnableBasicAuth := True, Credential := ''user:pass''\<rparr>) ''''
     \<lparr> Method = ''GET'', path = ''/js/../ws'', origin = None,
       basic_credential = Some ''user:wrong'' \<rparr>
     = Redirect ''/ws''"
proof -
  let ?opts = "plain_options\<lparr>EnableBasicAuth := True, Credential := ''user:pass''\<rparr>"
  let ?r = "\<lparr> Method = ''GET'', path = ''/auth_token.js'', origin = None,
       basic_credential = Some ''user:wrong'' \<rparr>"
  let ?w = "\<lparr> Method = ''GET'', path = ''/ws'', origin = None,
       basic_credential = Some ''user:wrong'' \<rparr>"
  let ?n = "\<lparr> Method = ''GET'', path = ''/js/../ws'', origin = None,
       basic_credential = Some ''user:wrong'' \<rparr>"
  have a: "EnableBasicAuth ?opts" by simp
  have b: "basic_credential ?r \<noteq> Some (Credential ?opts)"
    "basic_credential ?w \<noteq> Some (Credential ?opts)"
    "basic_credential ?n \<noteq> Some (Credential ?opts)" by simp_all
  have c: "cleanPath (path ?r) = path ?r" "cleanPath (path ?w) = path ?w"
    by (simp_all add: cleanPath_examples)
  have d: "Method ?n \<noteq> ''CONNECT''" "cleanPath (path ?n) \<noteq> path ?n"
    "cleanPath (path ?n) = ''/ws''"
    by (simp_all add: cleanPath_examples)
  have u: "Path (URL ?opts '''') = ''/''"
    by (simp add: URL_def plain_options_def)
  from basic_auth_guards_site_only [OF a b(1), of "''''"] c(1) u
  have 1: "setupHandlers ?opts '''' ?r = Unauthorized" by simp
  from basic_auth_guards_site_only [OF a b(2), of "''''"] c(2) u
  have 2: "setupHandlers ?opts '''' ?w = WebSocketSession" by simp
  from basic_auth_guards_site_only [OF a b(3), of "''''"] d
  have 3: "setupHandlers ?opts '''' ?n = Redirect ''/ws''" by simp
  from 1 2 3 show ?thesis by blast
qed

subsection \<open>What \<^verbatim>\<open>Run\<close> returns\<close>

lemma listenErr_closed_origin:
  "listenErr (foldl (run_step opts) st evs) = Some ErrServerClosed \<Longrightarrow>
     listenErr st = Some ErrServerClosed \<or> GracefulDone \<in> set evs
       \<or> ListenFailed ErrServerClosed \<in> set evs"
proof (induction evs arbitrary: st)
  case Nil
  then show ?case by simp
next
  case (Cons ev evs)
  from Cons.IH [OF Cons.prems [simplified]] show ?case
    by (cases ev) (auto simp: cancel_def listen_returns_def split: if_splits)
qed

lemma listenErr_origin:
  "listenErr (foldl (run_step opts) st evs) = Some e \<Longrightarrow> e \<noteq> ErrServerClosed \<Longrightarrow>
     listenErr st = Some e \<or> ListenFailed e \<in> set evs"
proof (induction evs arbitrary: st)
  case Nil
  then show ?case by simp
next
  case (Cons ev evs)
  from Cons.IH [OF Cons.prems(1) [simplified] Cons.prems(2)] Cons.prems(2) show ?case
    by (cases ev) (auto simp: cancel_def listen_returns_def split: if_splits)
qed

lemma cctx_origin:
  "cctx (foldl (run_step opts) st evs) = Some e \<Longrightarrow>
     cctx st = Some e \<or> ParentDone e \<in> set evs
       \<or> (e = Canceled \<and> (CancelCalled \<in> set evs \<or> (0 < Timeout opts \<and> TimerFired \<in> set evs)))"
proof (induction evs arbitrary: st)
  case Nil
  then show ?case by simp
next
  case (Cons ev evs)
  from Cons.IH [OF Cons.prems [simplified]] show ?case
    by (cases ev) (auto simp: cancel_def listen_returns_def split: if_splits)
qed

lemma Run_select_cases:
  "Run_select pick st = Some (CaseListenErr e) \<Longrightarrow> listenErr st = Some e"
  "Run_select pick st = Some CaseDone \<Longrightarrow> cctx st \<noteq> None"
  "Run_select pick st = None \<longleftrightarrow> listenErr st = None \<and> cctx st = None"
  by (auto simp: Run_select_def split: option.splits if_splits)

lemma err_after_select:
  "err_var (after_select late st (CaseListenErr e)) = (if e = ErrServerClosed then None else Some e)"
  "err_var (after_select late st CaseDone)
     = (if serving st \<and> late then Some ErrServerClosed else cctx st)"
  by (simp_all add: after_select.simps Let_def cancel_def)

lemma run_step_ready:
  "listenErr st \<noteq> None \<or> cctx st \<noteq> None \<Longrightarrow>
     listenErr (run_step opts st ev) \<noteq> None \<or> cctx (run_step opts st ev) \<noteq> None"
  "serving st \<or> listenErr st \<noteq> None \<Longrightarrow>
     serving (run_step opts st ev) \<or> listenErr (run_step opts st ev) \<noteq> None"
  "serving st \<or> listenErr st \<noteq> None \<Longrightarrow> armed opts ev \<Longrightarrow>
     listenErr (run_step opts st ev) \<noteq> None \<or> cctx (run_step opts st ev) \<noteq> None"
  by (cases ev; auto simp: cancel_def listen_returns_def)+

lemma run_stays_ready:
  "listenErr st \<noteq> None \<or> cctx st \<noteq> None \<Longrightarrow>
     listenErr (foldl (run_step opts) st evs) \<noteq> None \<or> cctx (foldl (run_step opts) st evs) \<noteq> None"
proof (induction evs arbitrary: st)
  case Nil
  then show ?case by simp
next
  case (Cons ev evs)
  from Cons.IH [OF run_step_ready(1) [OF Cons.prems]] show ?case by simp
qed

lemma run_gets_ready:
  "serving st \<or> listenErr st \<noteq> None \<Longrightarrow> \<exists>ev \<in> set evs. armed opts ev \<Longrightarrow>
     listenErr (foldl (run_step opts) st evs) \<noteq> None \<or> cctx (foldl (run_step opts) st evs) \<noteq> None"
proof (induction evs arbitrary: st)
  case Nil
  then show ?case by simp
next
  case (Cons ev evs)
  show ?case
  proof (cases "armed opts ev")
    case True
    from run_stays_ready [OF run_step_ready(3) [OF Cons.prems(1) True]] show ?thesis by simp
  next
    case False
    with Cons.prems(2) have "\<exists>ev \<in> set evs. armed opts ev" by auto
    from Cons.IH [OF run_step_ready(2) [OF Cons.prems(1)] this] show ?thesis by simp
  qed
qed

lemma graceful_only:
  assumes "\<forall>ev \<in> set evs. ev = GracefulDone" "evs \<noteq> []"
  shows "foldl (run_step opts) run_init evs
           = \<lparr> err_var = Some ErrServerClosed, cctx = None, listenErr = Some ErrServerClosed,
               serving = False \<rparr>"
proof -
  have idle: "foldl (run_step opts) st es = st"
    if "\<not> serving st" "\<forall>ev \<in> set es. ev = GracefulDone" for st es
    using that by (induction es arbitrary: st) (simp_all add: listen_returns_def)
  from assms obtain es where es: "evs = GracefulDone # es" "\<forall>ev \<in> set es. ev = GracefulDone"
    by (cases evs) auto
  have "run_step opts run_init GracefulDone
          = \<lparr> err_var = Some ErrServerClosed, cctx = None, listenErr = Some ErrServerClosed,
              serving = False \<rparr>"
    by (simp add: run_init_def listen_returns_def)
  with idle [OF _ es(2), of "run_step opts run_init GracefulDone"] es(1) show ?thesis
    by simp
qed

text \<open>
  C4, as stated, fails: with no timer armed and no listener failure, cancellation of the
  context given to \<^verbatim>\<open>Run\<close> makes \<^verbatim>\<open>Run\<close> return a non-nil error (the context's error, or
  \<^verbatim>\<open>ErrServerClosed\<close> when the serving goroutine's assignment comes last).
\<close>

theorem Run_parent_cancelled_returns_error:
  "Run (\<lambda>p. p) plain_options CAValid [ParentDone Canceled] True False 0
     ([] :: unit session_event list) = Returned (Some Canceled)
   \<and> Run (\<lambda>p. p) plain_options CAValid [ParentDone Canceled] True True 0
     ([] :: unit session_event list) = Returned (Some ErrServerClosed)"
  by (simp add: Run_def setupHTTPServer_def plain_options_def Run_select_def run_init_def
      err_after_select)

text \<open>
  C4, amended. Once the HTTP server is set up and the sessions have ended, \<^verbatim>\<open>Run\<close> returns
  a non-nil error when shutdown was triggered by the timer firing (armed only for a positive
  \<^verbatim>\<open>Timeout\<close>), by the cancellation of \<^verbatim>\<open>Run\<close>'s context (the caller's context being done,
  or a handler calling \<^verbatim>\<open>cancel\<close>) or by a listener failure, and nil when it was triggered by
  the graceful-shutdown context. The non-nil error is the listener's error, or the
  context's error, or \<^verbatim>\<open>ErrServerClosed\<close> where the serving goroutine's assignment to \<^verbatim>\<open>err\<close>
  comes after \<^verbatim>\<open>Run\<close>'s own. For any sequence of events before the \<^verbatim>\<open>select\<close> is decided:
  without the graceful-shutdown context firing the result is non-nil as soon as one trigger
  occurred; with nothing but the graceful-shutdown context firing it is nil; nil is returned
  only after the graceful-shutdown context fired (the listener closing with
  \<^verbatim>\<open>ErrServerClosed\<close>), and a non-nil error only after one of the other triggers.
\<close>

theorem Run_error_by_trigger:
  assumes srv_ok: "setupHTTPServer expand opts ca = Inr srv"
    and drained: "wsWG_Wait wg ses"
  shows "(0 < Timeout opts \<longrightarrow>
            Run expand opts ca [TimerFired] pick late wg ses
              = Returned (Some (if late then ErrServerClosed else Canceled)))
       \<and> Run expand opts ca [ParentDone e] pick late wg ses
              = Returned (Some (if late then ErrServerClosed else e))
       \<and> Run expand opts ca [CancelCalled] pick late wg ses
              = Returned (Some (if late then ErrServerClosed else Canceled))
       \<and> (e \<noteq> ErrServerClosed \<longrightarrow>
            Run expand opts ca [ListenFailed e] pick late wg ses = Returned (Some e))
       \<and> Run expand opts ca [GracefulDone] pick late wg ses = Returned None
       \<and> (Run expand opts ca evs pick late wg ses = Returned None \<longrightarrow>
            GracefulDone \<in> set evs \<or> ListenFailed ErrServerClosed \<in> set evs)
       \<and> (Run expand opts ca evs pick late wg ses = Returned (Some e) \<longrightarrow>
            ListenFailed e \<in> set evs
            \<or> (\<exists>c. (e = c \<or> e = ErrServerClosed)
                  \<and> (ParentDone c \<in> set evs
                       \<or> (c = Canceled \<and> (CancelCalled \<in> set evs
                             \<or> (0 < Timeout opts \<and> TimerFired \<in> set evs))))))
       \<and> ((\<exists>ev \<in> set evs. armed opts ev) \<and> GracefulDone \<notin> set evs
              \<and> ListenFailed ErrServerClosed \<notin> set evs \<longrightarrow>
            (\<exists>x. Run expand opts ca evs pick late wg ses = Returned (Some x)))
       \<and> (evs \<noteq> [] \<and> (\<forall>ev \<in> set evs. ev = GracefulDone) \<longrightarrow>
            Run expand opts ca evs pick late wg ses = Returned None)"
proof -
  let ?st = "foldl (run_step opts) run_init evs"
  have run: "Run expand opts ca es pick late wg ses =
      (case Run_select pick (foldl (run_step opts) run_init es) of
         None \<Rightarrow> Blocked
       | Some c \<Rightarrow> Returned (err_var (after_select late (foldl (run_step opts) run_init es) c)))"
    for es
    using srv_ok drained by (simp add: Run_def Let_def split: option.splits)
  have t: "0 < Timeout opts \<longrightarrow>
            Run expand opts ca [TimerFired] pick late wg ses
              = Returned (Some (if late then ErrServerClosed else Canceled))"
    by (simp add: run Run_select_def run_init_def cancel_def err_after_select)
  have p: "Run expand opts ca [ParentDone e] pick late wg ses
              = Returned (Some (if late then ErrServerClosed else e))"
    by (simp add: run Run_select_def run_init_def err_after_select)
  have c: "Run expand opts ca [CancelCalled] pick late wg ses
              = Returned (Some (if late then ErrServerClosed else Canceled))"
    by (simp add: run Run_select_def run_init_def cancel_def err_after_select)
  have l: "e \<noteq> ErrServerClosed \<longrightarrow>
            Run expand opts ca [ListenFailed e] pick late wg ses = Returned (Some e)"
    by (simp add: run Run_select_def run_init_def listen_returns_def cancel_def err_after_select)
  have g: "Run expand opts ca [GracefulDone] pick late wg ses = Returned None"
    by (simp add: run Run_select_def run_init_def listen_returns_def err_after_select)
  have n: "GracefulDone \<in> set evs \<or> ListenFailed ErrServerClosed \<in> set evs"
    if r: "Run expand opts ca evs pick late wg ses = Returned None"
  proof -
    from r obtain k where k: "Run_select pick ?st = Some k" "err_var (after_select late ?st k) = None"
      by (auto simp: run split: option.splits)
    have "listenErr ?st = Some ErrServerClosed"
    proof (cases k)
      case (CaseListenErr x)
      with k(2) have "x = ErrServerClosed"
        by (simp add: err_after_select split: if_splits)
      with k(1) CaseListenErr show ?thesis by (simp add: Run_select_cases(1))
    next
      case CaseDone
      with k(1) have "cctx ?st \<noteq> None" by (simp add: Run_select_cases(2))
      with k(2) CaseDone show ?thesis
        by (simp add: err_after_select split: if_splits)
    qed
    from listenErr_closed_origin [OF this] show ?thesis
      by (simp add: run_init_def)
  qed
  have s: "ListenFailed e \<in> set evs
            \<or> (\<exists>c. (e = c \<or> e = ErrServerClosed)
                  \<and> (ParentDone c \<in> set evs
                       \<or> (c = Canceled \<and> (CancelCalled \<in> set evs
                             \<or> (0 < Timeout opts \<and> TimerFired \<in> set evs)))))"
    if r: "Run expand opts ca evs pick late wg ses = Returned (Some e)"
  proof -
    from r obtain k where k: "Run_select pick ?st = Some k"
      "err_var (after_select late ?st k) = Some e"
      by (auto simp: run split: option.splits)
    show ?thesis
    proof (cases k)
      case (CaseListenErr x)
      with k(2) have x: "x = e" "e \<noteq> ErrServerClosed"
        by (auto simp: err_after_select split: if_splits)
      with k(1) CaseListenErr have "listenErr ?st = Some e"
        by (simp add: Run_select_cases(1))
      from listenErr_origin [OF this x(2)] show ?thesis
        by (simp add: run_init_def)
    next
      case CaseDone
      with k(1) obtain c where c: "cctx ?st = Some c"
        by (auto dest: Run_select_cases(2))
      with k(2) CaseDone have e: "e = c \<or> e = ErrServerClosed"
        by (auto simp: err_after_select split: if_splits)
      from cctx_origin [OF c]
      have "ParentDone c \<in> set evs
              \<or> (c = Canceled \<and> (CancelCalled \<in> set evs
                    \<or> (0 < Timeout opts \<and> TimerFired \<in> set evs)))"
        by (simp add: run_init_def)
      with e show ?thesis by blast
    qed
  qed
  have a: "\<exists>x. Run expand opts ca evs pick late wg ses = Returned (Some x)"
    if h: "\<exists>ev \<in> set evs. armed opts ev" "GracefulDone \<notin> set evs"
      "ListenFailed ErrServerClosed \<notin> set evs"
  proof -
    have "serving run_init \<or> listenErr run_init \<noteq> None" by (simp add: run_init_def)
    from run_gets_ready [OF this h(1)]
    have "Run_select pick ?st \<noteq> None" by (simp add: Run_select_cases(3))
    then obtain x where x: "Run expand opts ca evs pick late wg ses = Returned x"
      by (auto simp: run split: option.splits)
    with n h(2,3) have "x \<noteq> None" by auto
    with x show ?thesis by auto
  qed
  have o: "Run expand opts ca evs pick late wg ses = Returned None"
    if "evs \<noteq> []" "\<forall>ev \<in> set evs. ev = GracefulDone"
    by (simp add: run graceful_only [OF that(2,1)] Run_select_def err_after_select)
  from t p c l g n s a o show ?thesis by blast
qed

theorem Run_error_by_trigger_witness:
  "0 < Timeout (plain_options\<lparr>Timeout := 60\<rparr>)
   \<and> Run (\<lambda>p. p) (plain_options\<lparr>Timeout := 60\<rparr>) CAValid [TimerFired] True False 0
        ([] :: unit session_event list) = Returned (Some Canceled)
   \<and> Run (\<lambda>p. p) (plain_options\<lparr>Timeout := 60\<rparr>) CAValid
        [ListenFailed (ErrorString ''address already in use'')] True False 0
        ([] :: unit session_event list) = Returned (Some (ErrorString ''address already in use''))
   \<and> Run (\<lambda>p. p) (plain_options\<lparr>Timeout := 60\<rparr>) CAValid [GracefulDone] True False 0
        ([] :: unit session_event list) = Returned None
   \<and> (\<exists>x. Run (\<lambda>p. p) (plain_options\<lparr>Timeout := 60\<rparr>) CAValid [TimerFired, CancelCalled]
        True False 0 ([] :: unit session_event list) = Returned (Some x))
   \<and> Run (\<lambda>p. p) (plain_options\<lparr>Timeout := 60\<rparr>) CAValid [GracefulDone, GracefulDone]
        True False 0 ([] :: unit session_event list) = Returned None"
proof -
  let ?opts = "plain_options\<lparr>Timeout := 60\<rparr>"
  have a: "setupHTTPServer (\<lambda>p. p) ?opts CAValid = Inr None"
    by (simp add: setupHTTPServer_def plain_options_def)
  have b: "wsWG_Wait 0 ([] :: unit session_event list)" by simp
  have t: "0 < Timeout ?opts" by (simp add: plain_options_def)
  have e: "ErrorString ''address already in use'' \<noteq> ErrServerClosed" by simp
  note th = Run_error_by_trigger [OF a b, of True False]
  from th [of Canceled "[]"] t
  have 1: "Run (\<lambda>p. p) ?opts CAValid [TimerFired] True False 0 ([] :: unit session_event list)
             = Returned (Some Canceled)" by simp
  from th [of "ErrorString ''address already in use''" "[]"] e
  have 2: "Run (\<lambda>p. p) ?opts CAValid [ListenFailed (ErrorString ''address already in use'')]
             True False 0 ([] :: unit session_event list)
             = Returned (Some (ErrorString ''address already in use''))" by blast
  from th [of Canceled "[]"]
  have 3: "Run (\<lambda>p. p) ?opts CAValid [GracefulDone] True False 0 ([] :: unit session_event list)
             = Returned None" by blast
  have h: "\<exists>ev \<in> set [TimerFired, CancelCalled]. armed ?opts ev"
    "GracefulDone \<notin> set [TimerFired, CancelCalled]"
    "ListenFailed ErrServerClosed \<notin> set [TimerFired, CancelCalled]"
    by simp_all
  from th [of Canceled "[TimerFired, CancelCalled]"] h
  have 4: "\<exists>x. Run (\<lambda>p. p) ?opts CAValid [TimerFired, CancelCalled] True False 0
             ([] :: unit session_event list) = Returned (Some x)" by blast
  have i: "[GracefulDone, GracefulDone] \<noteq> []"
    "\<forall>ev \<in> set [GracefulDone, GracefulDone]. ev = GracefulDone" by simp_all
  from th [of Canceled "[GracefulDone, GracefulDone]"] i
  have 5: "Run (\<lambda>p. p) ?opts CAValid [GracefulDone, GracefulDone] True False 0
             ([] :: unit session_event list) = Returned None" by blast
  from t 1 2 3 4 5 show ?thesis by blast
qed

subsection \<open>\<^verbatim>\<open>Run\<close> waits for the sessions\<close>

lemma wsWG_Wait_bound:
  "wsWG_Wait c ses \<Longrightarrow> 0 \<le> c \<Longrightarrow> c \<le> int (deregistrations ses)"
proof (induction ses arbitrary: c)
  case Nil
  then show ?case by simp
next
  case (Cons s ses)
  show ?case
  proof (cases "c = 0")
    case True
    then show ?thesis by simp
  next
    case False
    with Cons.prems have w: "wsWG_Wait (wg_apply c s) ses" and pos: "0 < c" by simp_all
    show ?thesis
    proof (cases s)
      case (Registered x)
      with w pos Cons.IH [of "c + 1"] show ?thesis by simp
    next
      case (Deregistered x)
      with w pos Cons.IH [of "c - 1"] show ?thesis by simp
    qed
  qed
qed

lemma wsWG_Wait_deregistered:
  "wsWG_Wait (int n) (map Deregistered ds) = (n \<le> length ds)"
proof (induction ds arbitrary: n)
  case Nil
  then show ?case by simp
next
  case (Cons d ds)
  show ?case
  proof (cases n)
    case 0
    then show ?thesis by simp
  next
    case (Suc m)
    have "int (Suc m) - 1 = int m" by simp
    with Cons.IH [of m] Suc show ?thesis by simp
  qed
qed

text \<open>
  C5. Let \<open>N\<close> sessions be registered with the wait group when \<^verbatim>\<open>Run\<close> reaches
  \<^verbatim>\<open>wsWG.Wait()\<close>. Whatever the sessions do afterwards (deregister in any order, even
  register anew), \<^verbatim>\<open>Run\<close> has returned only if at least \<open>N\<close> deregistrations have happened.
  And when shutdown is initiated (the \<^verbatim>\<open>select\<close> of \<^verbatim>\<open>Run\<close> is decided) and sessions only
  deregister, \<^verbatim>\<open>Run\<close> is blocked before the \<open>N\<close>-th deregistration and has returned from it
  on, with the value that \<^verbatim>\<open>err\<close> then has.
\<close>

theorem Run_returns_after_all_deregistered:
  assumes srv_ok: "setupHTTPServer expand opts ca = Inr srv"
  shows "(Run expand opts ca evs pick late (int N) ses = Returned e
            \<longrightarrow> N \<le> deregistrations ses)
       \<and> (Run_select pick (foldl (run_step opts) run_init evs) = Some c \<longrightarrow>
            Run expand opts ca evs pick late (int N) (map Deregistered ds)
              = (if N \<le> length ds
                 then Returned (err_var (after_select late (foldl (run_step opts) run_init evs) c))
                 else Blocked))"
proof -
  have 1: "N \<le> deregistrations ses"
    if "Run expand opts ca evs pick late (int N) ses = Returned e"
  proof -
    from that srv_ok have "wsWG_Wait (int N) ses"
      by (auto simp: Run_def Let_def split: option.splits if_splits)
    from wsWG_Wait_bound [OF this] show ?thesis by simp
  qed
  have 2: "Run expand opts ca evs pick late (int N) (map Deregistered ds)
              = (if N \<le> length ds
                 then Returned (err_var (after_select late (foldl (run_step opts) run_init evs) c))
                 else Blocked)"
    if "Run_select pick (foldl (run_step opts) run_init evs) = Some c"
    using that srv_ok by (simp add: Run_def Let_def wsWG_Wait_deregistered)
  from 1 2 show ?thesis by blast
qed

theorem Run_returns_after_all_deregistered_witness:
  "Run (\<lambda>p. p) plain_options CAValid [CancelCalled] True True (int 3)
     (map Deregistered [3, 1, 2 :: nat]) = Returned (Some ErrServerClosed)
   \<and> Run (\<lambda>p. p) plain_options CAValid [CancelCalled] True True (int 3)
     (map Deregistered [3, 1 :: nat]) = Blocked
   \<and> 3 \<le> deregistrations (map Deregistered [3, 1, 2 :: nat])"
proof -
  have a: "setupHTTPServer (\<lambda>p. p) plain_options CAValid = Inr None"
    by (simp add: setupHTTPServer_def plain_options_def)
  have b: "Run_select True (foldl (run_step plain_options) run_init [CancelCalled]) = Some CaseDone"
    by (simp add: Run_select_def run_init_def cancel_def)
  have v: "err_var (after_select True (foldl (run_step plain_options) run_init [CancelCalled])
             CaseDone) = Some ErrServerClosed"
    by (simp add: run_init_def cancel_def err_after_select)
  note th = Run_returns_after_all_deregistered [OF a, of "[CancelCalled]" True True 3]
  from th [of "map Deregistered [3, 1, 2 :: nat]" "Some ErrServerClosed" CaseDone "[3, 1, 2 :: nat]"] b v
  have 1: "Run (\<lambda>p. p) plain_options CAValid [CancelCalled] True True (int 3)
     (map Deregistered [3, 1, 2 :: nat]) = Returned (Some ErrServerClosed)" by simp
  from th [of "map Deregistered [3, 1, 2 :: nat]" "Some ErrServerClosed" CaseDone "[3, 1 :: nat]"] b
  have 2: "Run (\<lambda>p. p) plain_options CAValid [CancelCalled] True True (int 3)
     (map Deregistered [3, 1 :: nat]) = Blocked" by simp
  from th [of "map Deregistered [3, 1, 2 :: nat]" "Some ErrServerClosed" CaseDone "[3, 1, 2 :: nat]"] 1
  have 3: "3 \<le> deregistrations (map Deregistered [3, 1, 2 :: nat])" by blast
  from 1 2 3 show ?thesis by blast
qed

section \<open>Properties of the client controller\<close>

subsection \<open>Dispatch on the first character\<close>

lemma kinds_distinct:
  "Output \<noteq> Pong" "Output \<noteq> SetWindowTitle" "Output \<noteq> SetPreferences" "Output \<noteq> SetReconnect"
  "Pong \<noteq> SetWindowTitle" "Pong \<noteq> SetPreferences" "Pong \<noteq> SetReconnect"
  "SetWindowTitle \<noteq> SetPreferences" "SetWindowTitle \<noteq> SetReconnect"
  "SetPreferences \<noteq> SetReconnect"
  by (simp_all add: Output_def Pong_def SetWindowTitle_def SetPreferences_def SetReconnect_def js_def)

lemma kinds_length:
  "length Output = 1" "length Pong = 1" "length SetWindowTitle = 1"
  "length SetPreferences = 1" "length SetReconnect = 1"
  by (simp_all add: Output_def Pong_def SetWindowTitle_def SetPreferences_def SetReconnect_def js_def)

lemma onReceive_kind:
  assumes "length k = 1"
  shows "onReceive bi w (k @ payload) =
     (if k = Output then
        (case decode_Output_payload payload of
           Inl e \<Rightarrow> Inl e | Inr text \<Rightarrow> Inr (w, [TermWrite text]))
      else if k = Pong then Inr (w, [])
      else if k = SetWindowTitle then Inr (w, [TermSetWindowTitle payload])
      else if k = SetPreferences then
        (case JSON_parse bi payload of
           Inl e \<Rightarrow> Inl e | Inr v \<Rightarrow> Inr (w, [TermSetPreferences v]))
      else if k = SetReconnect then
        (case JSON_parse bi payload of
           Inl e \<Rightarrow> Inl e | Inr v \<Rightarrow> Inr (w\<lparr>reconnect := v\<rparr>, [ConsoleLog v]))
      else Inr (w, []))"
proof -
  from assms have "take 1 (k @ payload) = k" "drop 1 (k @ payload) = payload"
    by simp_all
  then show ?thesis
    unfolding onReceive_def Let_def by (simp only:)
qed

text \<open>
  C7. A message whose first character is none of the case labels \<open>1\<close> to \<open>5\<close> (so every
  message that does not start with one of \<open>0\<close> to \<open>5\<close>, and also one that starts with \<open>0\<close>,
  and the empty message) makes the receive handler do nothing: no call, no change of the
  controller, no exception. A message that starts with a case label is handled by that
  label's case, whatever follows the first character.
\<close>

theorem onReceive_dispatch:
  "((\<forall>k \<in> {Output, Pong, SetWindowTitle, SetPreferences, SetReconnect}. take 1 data \<noteq> k)
       \<longrightarrow> onReceive bi w data = Inr (w, []))
   \<and> onReceive bi w (Output @ payload) =
        (case decode_Output_payload payload of
           Inl e \<Rightarrow> Inl e | Inr text \<Rightarrow> Inr (w, [TermWrite text]))
   \<and> onReceive bi w (Pong @ payload) = Inr (w, [])
   \<and> onReceive bi w (SetWindowTitle @ payload) = Inr (w, [TermSetWindowTitle payload])
   \<and> onReceive bi w (SetPreferences @ payload) =
        (case JSON_parse bi payload of
           Inl e \<Rightarrow> Inl e | Inr v \<Rightarrow> Inr (w, [TermSetPreferences v]))
   \<and> onReceive bi w (SetReconnect @ payload) =
        (case JSON_parse bi payload of
           Inl e \<Rightarrow> Inl e | Inr v \<Rightarrow> Inr (w\<lparr>reconnect := v\<rparr>, [ConsoleLog v]))"
proof -
  have u: "onReceive bi w data = Inr (w, [])"
    if "\<forall>k \<in> {Output, Pong, SetWindowTitle, SetPreferences, SetReconnect}. take 1 data \<noteq> k"
    using that by (simp add: onReceive_def)
  have 1: "onReceive bi w (Output @ payload) =
        (case decode_Output_payload payload of
           Inl e \<Rightarrow> Inl e | Inr text \<Rightarrow> Inr (w, [TermWrite text]))"
    by (simp add: onReceive_kind kinds_length)
  have 2: "onReceive bi w (Pong @ payload) = Inr (w, [])"
    by (simp add: onReceive_kind kinds_length kinds_distinct [symmetric])
  have 3: "onReceive bi w (SetWindowTitle @ payload) = Inr (w, [TermSetWindowTitle payload])"
    by (simp add: onReceive_kind kinds_length kinds_distinct [symmetric])
  have 4: "onReceive bi w (SetPreferences @ payload) =
        (case JSON_parse bi payload of
           Inl e \<Rightarrow> Inl e | Inr v \<Rightarrow> Inr (w, [TermSetPreferences v]))"
    by (simp add: onReceive_kind kinds_length kinds_distinct [symmetric])
  have 5: "onReceive bi w (SetReconnect @ payload) =
        (case JSON_parse bi payload of
           Inl e \<Rightarrow> Inl e | Inr v \<Rightarrow> Inr (w\<lparr>reconnect := v\<rparr>, [ConsoleLog v]))"
    by (simp add: onReceive_kind kinds_length kinds_distinct [symmetric])
  from u 1 2 3 4 5 show ?thesis by blast
qed

theorem onReceive_dispatch_witness:
  "onReceive sample_builtins (WebTTY_new [] []) (js ''9hello'') = Inr (WebTTY_new [] [], [])
   \<and> onReceive sample_builtins (WebTTY_new [] []) (js ''0'') = Inr (WebTTY_new [] [], [])
   \<and> onReceive sample_builtins (WebTTY_new [] []) [] = Inr (WebTTY_new [] [], [])"
proof -
  have a: "\<forall>k \<in> {Output, Pong, SetWindowTitle, SetPreferences, SetReconnect}.
             take 1 (js ''9hello'') \<noteq> k"
    by (simp add: Output_def Pong_def SetWindowTitle_def SetPreferences_def SetReconnect_def
        js_def)
  have b: "\<forall>k \<in> {Output, Pong, SetWindowTitle, SetPreferences, SetReconnect}.
             take 1 (js ''0'') \<noteq> k"
    by (simp add: Output_def Pong_def SetWindowTitle_def SetPreferences_def SetReconnect_def
        js_def)
  have c: "\<forall>k \<in> {Output, Pong, SetWindowTitle, SetPreferences, SetReconnect}.
             take 1 ([] :: jsstring) \<noteq> k"
    by (simp add: Output_def Pong_def SetWindowTitle_def SetPreferences_def SetReconnect_def
        js_def)
  from onReceive_dispatch [of "js ''9hello''" sample_builtins "WebTTY_new [] []" "[]"] a
  have 1: "onReceive sample_builtins (WebTTY_new [] []) (js ''9hello'')
             = Inr (WebTTY_new [] [], [])" by blast
  from onReceive_dispatch [of "js ''0''" sample_builtins "WebTTY_new [] []" "[]"] b
  have 2: "onReceive sample_builtins (WebTTY_new [] []) (js ''0'')
             = Inr (WebTTY_new [] [], [])" by blast
  from onReceive_dispatch [of "[]" sample_builtins "WebTTY_new [] []" "[]"] c
  have 3: "onReceive sample_builtins (WebTTY_new [] []) [] = Inr (WebTTY_new [] [], [])"
    by blast
  from 1 2 3 show ?thesis by blast
qed

subsection \<open>The handshake comes first\<close>

lemma sent_on_append: "sent_on c (xs @ ys) = sent_on c xs @ sent_on c ys"
  by (induction c xs rule: sent_on.induct) auto

lemma onReceive_keeps:
  assumes "onReceive bi w data = Inr (w', cs)"
  shows "sent_on c cs = []" "args w' = args w" "authToken w' = authToken w"
  using assms
  by (auto simp: onReceive_def Let_def split: if_splits sum.splits)

lemma onClose_sends_nothing: "sent_on c (onClose bi w) = []"
  by (simp add: onClose_def split: option.splits)

lemma input_callbacks_sent:
  "sent_on c (concat (map (\<lambda>c'. onInput_callback c' input) cbs))
     = map (\<lambda>c'. Input @ input) (filter (\<lambda>c'. c' = c) cbs)"
  by (induction cbs) (auto simp: onInput_callback_def)

lemma resize_callbacks_sent:
  "sent_on c (concat (map (\<lambda>c'. onResize_callback bi c' columns rows) cbs))
     = map (\<lambda>c'. ResizeTerminal @ JSON_stringify bi (JObj [(js ''columns'', JNum columns),
                                                  (js ''rows'', JNum rows)])) (filter (\<lambda>c'. c' = c) cbs)"
  by (induction cbs) (auto simp: onResize_callback_def)

lemma handshake_cong:
  "args w' = args w \<Longrightarrow> authToken w' = authToken w \<Longrightarrow> handshake bi w' = handshake bi w"
  by (simp add: handshake_def)

lemma page_step_invariant:
  assumes "handshake bi (controller p) = h"
    and "\<forall>c. c \<in> set (inputCallbacks p) \<or> c \<in> set (resizeCallbacks p) \<longrightarrow> sent_on c (calls p) \<noteq> []"
    and "\<forall>c. sent_on c (calls p) \<noteq> [] \<longrightarrow> hd (sent_on c (calls p)) = h"
  shows "handshake bi (controller (page_step bi p ev)) = h
    \<and> (\<forall>c. c \<in> set (inputCallbacks (page_step bi p ev)) \<or> c \<in> set (resizeCallbacks (page_step bi p ev))
          \<longrightarrow> sent_on c (calls (page_step bi p ev)) \<noteq> [])
    \<and> (\<forall>c. sent_on c (calls (page_step bi p ev)) \<noteq> []
          \<longrightarrow> hd (sent_on c (calls (page_step bi p ev))) = h)"
proof (cases ev)
  case (ConnOpened c)
  with assms show ?thesis by (auto simp: sent_on_append hd_append)
next
  case (ConnReceived c data)
  show ?thesis
  proof (cases "onReceive bi (controller p) data")
    case (Inl e)
    with assms ConnReceived show ?thesis by simp
  next
    case (Inr r)
    obtain w' cs where r: "r = (w', cs)" by (cases r)
    from onReceive_keeps [OF Inr [unfolded r]] assms(1)
    have "handshake bi w' = h" "\<And>c. sent_on c cs = []"
      by (auto dest: handshake_cong)
    with assms ConnReceived Inr r show ?thesis
      by (auto simp: sent_on_append hd_append)
  qed
next
  case (ConnClosed c)
  with assms show ?thesis by (auto simp: sent_on_append onClose_sends_nothing hd_append)
next
  case (TermInput input)
  with assms show ?thesis
    by (auto simp: sent_on_append input_callbacks_sent filter_empty_conv hd_append)
next
  case (TermResized columns rows)
  with assms show ?thesis
    by (auto simp: sent_on_append resize_callbacks_sent filter_empty_conv hd_append)
next
  case OpenCalled
  with assms show ?thesis by (auto simp: WebTTY_open_def sent_on_append hd_append)
qed

lemma run_invariant:
  assumes "handshake bi (controller p) = h"
    and "\<forall>c. c \<in> set (inputCallbacks p) \<or> c \<in> set (resizeCallbacks p) \<longrightarrow> sent_on c (calls p) \<noteq> []"
    and "\<forall>c. sent_on c (calls p) \<noteq> [] \<longrightarrow> hd (sent_on c (calls p)) = h"
  shows "\<forall>c. sent_on c (calls (foldl (page_step bi) p evs)) \<noteq> []
          \<longrightarrow> hd (sent_on c (calls (foldl (page_step bi) p evs))) = h"
  using assms
proof (induction evs arbitrary: p)
  case Nil
  then show ?case by simp
next
  case (Cons ev evs)
  from page_step_invariant [OF Cons.prems, of ev]
  show ?case by (simp add: Cons.IH)
qed

text \<open>
  C6. However the page goes on after \<^verbatim>\<open>open()\<close> (connections opening, receiving and closing,
  terminal input and resizes, further calls of \<^verbatim>\<open>open()\<close>, in any order), the first body sent
  on any connection is the handshake \<^verbatim>\<open>JSON.stringify({Arguments, AuthToken})\<close>; so no Input or
  ResizeTerminal frame goes out on a connection before its handshake. And the \<^verbatim>\<open>onOpen\<close>
  callback of a connection sends the handshake at once.
\<close>

theorem handshake_is_first_body:
  "(sent_on c (calls (foldl (page_step bi) (WebTTY_open (new_page (WebTTY_new a t))) evs)) \<noteq> []
     \<longrightarrow> hd (sent_on c (calls (foldl (page_step bi) (WebTTY_open (new_page (WebTTY_new a t))) evs)))
           = JSON_stringify bi (JObj [(js ''Arguments'', JStr a), (js ''AuthToken'', JStr t)]))
   \<and> (c < created p \<longrightarrow>
         calls (page_step bi p (ConnOpened c))
           = calls p @ [ConnectionSend c (JSON_stringify bi
               (JObj [(js ''Arguments'', JStr (args (controller p))),
                      (js ''AuthToken'', JStr (authToken (controller p)))]))])"
proof -
  let ?p0 = "WebTTY_open (new_page (WebTTY_new a t))"
  have "handshake bi (controller ?p0)
          = JSON_stringify bi (JObj [(js ''Arguments'', JStr a), (js ''AuthToken'', JStr t)])"
    by (simp add: WebTTY_open_def new_page_def WebTTY_new_def handshake_def)
  moreover have "\<forall>c. c \<in> set (inputCallbacks ?p0) \<or> c \<in> set (resizeCallbacks ?p0)
      \<longrightarrow> sent_on c (calls ?p0) \<noteq> []"
    by (simp add: WebTTY_open_def new_page_def)
  moreover have "\<forall>c. sent_on c (calls ?p0) \<noteq> [] \<longrightarrow> hd (sent_on c (calls ?p0))
      = JSON_stringify bi (JObj [(js ''Arguments'', JStr a), (js ''AuthToken'', JStr t)])"
    by (simp add: WebTTY_open_def new_page_def)
  ultimately have "\<forall>c. sent_on c (calls (foldl (page_step bi) ?p0 evs)) \<noteq> []
          \<longrightarrow> hd (sent_on c (calls (foldl (page_step bi) ?p0 evs)))
            = JSON_stringify bi (JObj [(js ''Arguments'', JStr a), (js ''AuthToken'', JStr t)])"
    by (rule run_invariant)
  then show ?thesis by (simp add: handshake_def)
qed

theorem handshake_is_first_body_witness:
  "sent_on 0 (calls (foldl (page_step sample_builtins) (WebTTY_open (new_page (WebTTY_new [] [])))
       [TermInput (js ''x''), ConnOpened 0, TermInput (js ''ls'')]))
     = [js ''{\"Arguments\":\"\",\"AuthToken\":\"\"}'', js ''1ls'']
   \<and> hd (sent_on 0 (calls (foldl (page_step sample_builtins)
       (WebTTY_open (new_page (WebTTY_new [] [])))
       [TermInput (js ''x''), ConnOpened 0, TermInput (js ''ls'')])))
     = JSON_stringify sample_builtins (JObj [(js ''Arguments'', JStr []), (js ''AuthToken'', JStr [])])"
proof -
  let ?evs = "[TermInput (js ''x''), ConnOpened 0, TermInput (js ''ls'')]"
  have e: "sent_on 0 (calls (foldl (page_step sample_builtins)
              (WebTTY_open (new_page (WebTTY_new [] []))) ?evs))
            = [js ''{\"Arguments\":\"\",\"AuthToken\":\"\"}'', js ''1ls'']"
    by (simp add: sample_builtins_def WebTTY_open_def new_page_def WebTTY_new_def handshake_def
        onInput_callback_def Input_def js_def)
  then have n: "sent_on 0 (calls (foldl (page_step sample_builtins)
              (WebTTY_open (new_page (WebTTY_new [] []))) ?evs)) \<noteq> []"
    by simp
  from handshake_is_first_body [of 0 sample_builtins "[]" "[]" ?evs] n
  have "hd (sent_on 0 (calls (foldl (page_step sample_builtins)
              (WebTTY_open (new_page (WebTTY_new [] []))) ?evs)))
     = JSON_stringify sample_builtins (JObj [(js ''Arguments'', JStr []), (js ''AuthToken'', JStr [])])"
    by blast
  with e show ?thesis by blast
qed

subsection \<open>The Input frame\<close>

text \<open>
  C8, as stated, fails: for the input \<open>a\<close> the frame sent is \<open>1a\<close>, while the encoding of
  Output payloads would make it \<open>1YQ==\<close>.
\<close>

theorem Input_frame_is_not_encoded:
  "onInput_callback 0 (js ''a'') = [ConnectionSend 0 (js ''1a'')]
   \<and> Input @ base64_encode (utf8_encode 0x61) = js ''1YQ==''
   \<and> onInput_callback 0 (js ''a'') \<noteq> [ConnectionSend 0 (Input @ base64_encode (utf8_encode 0x61))]"
  by (simp add: onInput_callback_def Input_def js_def utf8_encode_def utf8_octets_def b64char_def)

text \<open>
  C8, amended. For every terminal-input event, the payload of the Input frame is the input
  string itself, unchanged: each registered callback sends \<open>1\<close> followed by the input on its
  connection.
\<close>

theorem Input_frame_is_raw_input:
  "onInput_callback c input = [ConnectionSend c (js ''1'' @ input)]
   \<and> calls (page_step bi p (TermInput input))
       = calls p @ map (\<lambda>c. ConnectionSend c (js ''1'' @ input)) (inputCallbacks p)"
proof -
  have "concat (map (\<lambda>c. onInput_callback c input) cbs)
          = map (\<lambda>c. ConnectionSend c (js ''1'' @ input)) cbs" for cbs
    by (induction cbs) (simp_all add: onInput_callback_def Input_def)
  then show ?thesis
    by (simp add: onInput_callback_def Input_def)
qed

subsection \<open>Reconnecting\<close>

text \<open>
  C3, on the code: after \<^verbatim>\<open>SetReconnect\<close> with payload \<open>5\<close> and the closing of the connection,
  one timer is set, for 5000 milliseconds, and the function it will call is the global
  \<^verbatim>\<open>open\<close>, not the controller's \<^verbatim>\<open>open()\<close>.
\<close>

theorem reconnect_timer_calls_global_open:
  "calls (foldl (page_step sample_builtins) (WebTTY_open (new_page (WebTTY_new [] [])))
      [ConnOpened 0, ConnReceived 0 (SetReconnect @ js ''5''), ConnClosed 0])
   = [ConnectionOpen 0,
      ConnectionSend 0 (js ''{\"Arguments\":\"\",\"AuthToken\":\"\"}''),
      ConsoleLog (JNum 5),
      TermShowMessage (js ''disconnected'') 0,
      SetTimeout GlobalOpen 5000]"
  by (simp add: sample_builtins_def WebTTY_open_def new_page_def WebTTY_new_def handshake_def
      onReceive_kind kinds_length kinds_distinct [symmetric] onClose_def)


lemma onClose_timers:
  "onClose bi (w\<lparr>reconnect := JNum n\<rparr>) =
     TermShowMessage (js ''disconnected'') 0 #
       (if 0 < n then [SetTimeout GlobalOpen (n * 1000)] else [])"
  "onClose bi (WebTTY_new a t) = [TermShowMessage (js ''disconnected'') 0]"
  by (simp_all add: onClose_def WebTTY_new_def)

section \<open>Properties of the Output frame\<close>

subsection \<open>\<^verbatim>\<open>atob\<close> undoes the server's base64\<close>

lemma unat_of_nat16: "n < 65536 \<Longrightarrow> unat (of_nat n :: 16 word) = n"
  by (simp add: unat_of_nat)

lemma unat8_less: "unat (x :: 8 word) < 256"
  using unsigned_less [of x, where 'a = nat] by simp

lemma b64index_b64char:
  assumes "i < 64"
  shows "b64index (b64char i) = Some i"
proof -
  from assms consider "i < 26" | "26 \<le> i" "i < 52" | "52 \<le> i" "i < 62" | "i = 62" | "i = 63"
    by arith
  then show ?thesis
  proof cases
    case 1
    then have "unat (b64char i) = 65 + i"
      using unat_of_nat16 [of "65 + i"] by (simp add: b64char_def)
    with 1 show ?thesis by (auto simp: b64index_def Let_def)
  next
    case 2
    then have "unat (b64char i) = 97 + (i - 26)"
      using unat_of_nat16 [of "97 + (i - 26)"] by (simp add: b64char_def)
    with 2 show ?thesis by (auto simp: b64index_def Let_def)
  next
    case 3
    then have "unat (b64char i) = 48 + (i - 52)"
      using unat_of_nat16 [of "48 + (i - 52)"] by (simp add: b64char_def)
    with 3 show ?thesis by (auto simp: b64index_def Let_def)
  next
    case 4
    then show ?thesis by (simp add: b64char_def b64index_def)
  next
    case 5
    then show ?thesis by (simp add: b64char_def b64index_def)
  qed
qed

lemma b64index_not_alphabet:
  "b64index 0x3D = None" "ascii_whitespace c \<Longrightarrow> b64index c = None"
  by (auto simp: b64index_def ascii_whitespace_def)


lemma b64char_plain:
  assumes "i < 64"
  shows "b64char i \<noteq> 0x3D" "\<not> ascii_whitespace (b64char i)"
  using b64index_b64char [OF assms] b64index_not_alphabet by auto

lemma sextets_bound: "\<forall>i \<in> set (sextets b). i < 64"
proof (induction b rule: sextets.induct)
  case (1 a b c rest)
  have "unat a < 256" "unat b < 256" "unat c < 256" by (rule unat8_less)+
  then have "unat a div 4 < 64" "(unat a mod 4) * 16 + unat b div 16 < 64"
    "(unat b mod 16) * 4 + unat c div 64 < 64" "unat c mod 64 < 64"
    by arith+
  with 1 show ?case by simp
next
  case (2 a b)
  have "unat a < 256" "unat b < 256" by (rule unat8_less)+
  then have "unat a div 4 < 64" "(unat a mod 4) * 16 + unat b div 16 < 64"
    "(unat b mod 16) * 4 < 64"
    by arith+
  then show ?case by simp
next
  case (3 a)
  have "unat a < 256" by (rule unat8_less)
  then have "unat a div 4 < 64" "(unat a mod 4) * 16 < 64"
    by arith+
  then show ?case by simp
next
  case 4
  then show ?case by simp
qed

lemma unat_of_nat8: "n < 256 \<Longrightarrow> unat (of_nat n :: 8 word) = n"
  by (simp add: unat_of_nat)

lemma base64_encode_parts:
  "base64_encode b = map b64char (sextets b) @ replicate (padding b) 0x3D"
  by (induction b rule: sextets.induct) (simp_all add: numeral_2_eq_2)

lemma padding_le: "padding b \<le> 2"
  by (induction b rule: padding.induct) simp_all

lemma sextets_length: "(length (sextets b) + padding b) mod 4 = 0" "length (sextets b) mod 4 \<noteq> 1"
  by (induction b rule: sextets.induct) simp_all

lemma sextets_bytes_sextets: "sextets_bytes (sextets b) = map unat b"
proof (induction b rule: sextets.induct)
  case (1 a b c rest)
  have "unat b < 256" "unat c < 256" by (rule unat8_less)+
  then have "unat b div 16 < 16" "unat c div 64 < 4" by simp_all
  with 1 show ?case by simp
next
  case (2 a b)
  have "unat b < 256" by (rule unat8_less)
  then have "unat b div 16 < 16" by simp
  then show ?case by simp
next
  case (3 a)
  show ?case by simp
next
  case 4
  then show ?case by simp
qed

lemma strip_padding_replicate:
  assumes "\<forall>x \<in> set m. x \<noteq> 0x3D" "k \<le> 2"
  shows "strip_padding (m @ replicate k 0x3D) = m"
proof -
  have l: "m \<noteq> [] \<Longrightarrow> last m \<noteq> 0x3D"
    using assms(1) last_in_set by blast
  from assms(2) consider "k = 0" | "k = 1" | "k = 2" by arith
  then show ?thesis
  proof cases
    case 1
    with l show ?thesis by (auto simp: strip_padding_def)
  next
    case 2
    with l show ?thesis by (auto simp: strip_padding_def)
  next
    case 3
    then have "m @ replicate k 0x3D = (m @ [0x3D]) @ [0x3D]"
      by (simp add: numeral_2_eq_2)
    with l show ?thesis
      by (auto simp: strip_padding_def Let_def butlast_append)
  qed
qed

lemma those_b64index: "\<forall>i \<in> set ix. i < 64 \<Longrightarrow> those (map b64index (map b64char ix)) = Some ix"
  by (induction ix) (simp_all add: b64index_b64char)

lemma atob_base64_encode: "atob (base64_encode b) = Inr (map (\<lambda>x. of_nat (unat x)) b)"
proof -
  let ?m = "map b64char (sextets b)"
  have plain: "\<forall>x \<in> set ?m. x \<noteq> 0x3D" "\<forall>x \<in> set ?m. \<not> ascii_whitespace x"
    using sextets_bound [of b] by (auto simp: b64char_plain)
  have ws: "\<not> ascii_whitespace 0x3D" by (simp add: ascii_whitespace_def)
  have f: "filter (\<lambda>c. \<not> ascii_whitespace c) (base64_encode b) = base64_encode b"
    using plain(2) ws by (auto simp: base64_encode_parts filter_id_conv)
  have len: "length (base64_encode b) mod 4 = 0"
    using sextets_length(1) [of b] by (simp add: base64_encode_parts)
  have st: "strip_padding (base64_encode b) = ?m"
    unfolding base64_encode_parts
    by (rule strip_padding_replicate [OF plain(1) padding_le])
  have l1: "length ?m mod 4 \<noteq> 1"
    using sextets_length(2) [of b] by simp
  have th: "those (map b64index ?m) = Some (sextets b)"
    by (rule those_b64index [OF sextets_bound])
  show ?thesis
    unfolding atob_def Let_def f
    using len st l1 th by (simp add: sextets_bytes_sextets)
qed

subsection \<open>The escapes are read back as the bytes\<close>

lemma hexval_hexdigit:
  assumes "d < 16"
  shows "hexval (hexdigit d) = Some d"
proof (cases "d < 10")
  case True
  then have "unat (hexdigit d) = 48 + d"
    using unat_of_nat16 [of "48 + d"] by (simp add: hexdigit_def)
  with True show ?thesis by (auto simp: hexval_def Let_def)
next
  case False
  with assms have "unat (hexdigit d) = 87 + d"
    using unat_of_nat16 [of "87 + d"] by (simp add: hexdigit_def)
  with False assms show ?thesis by (auto simp: hexval_def Let_def)
qed

lemma toString16_byte:
  assumes "n < 256"
  shows "js ''00'' @ toString16 n =
     (if n < 16 then [0x30, 0x30, hexdigit n]
      else [0x30, 0x30, hexdigit (n div 16), hexdigit (n mod 16)])"
proof (cases "n < 16")
  case True
  then show ?thesis by (simp add: toString16.simps js_def)
next
  case False
  with assms have "n div 16 < 16" by simp
  then have "toString16 (n div 16) = [hexdigit (n div 16)]"
    by (simp add: toString16.simps)
  with False show ?thesis
    by (simp add: toString16.simps [of n] js_def)
qed

lemma percent_escape_byte:
  assumes "n < 256"
  shows "percent_escape (of_nat n) = [0x25, hexdigit (n div 16), hexdigit (n mod 16)]"
proof -
  from assms have u: "unat (of_nat n :: 16 word) = n"
    by (simp add: unat_of_nat16)
  have z: "hexdigit 0 = 0x30" by (simp add: hexdigit_def)
  show ?thesis
    unfolding percent_escape_def u toString16_byte [OF assms]
    by (simp add: slice_last2_def js_def z)
qed

lemma unescape_escape:
  assumes "n < 256"
  shows "unescape (percent_escape (of_nat n) @ s) = map_option (Cons (Octet n)) (unescape s)"
proof -
  from assms have d: "n div 16 < 16" "n mod 16 < 16" by simp_all
  have "16 * (n div 16) + n mod 16 = n" by simp
  then show ?thesis
    by (simp add: percent_escape_byte [OF assms] hexval_hexdigit [OF d(1)] hexval_hexdigit [OF d(2)])
qed

lemma unescape_escape_byte:
  "unescape (percent_escape (ucast (x :: 8 word)) @ s)
     = map_option (Cons (Octet (unat x))) (unescape s)"
  using unescape_escape [OF unat8_less, of x s] by simp

lemma unescape_escaped:
  "unescape (concat (map percent_escape (map ucast (b :: 8 word list))))
     = Some (map (\<lambda>x. Octet (unat x)) b)"
  by (induction b) (simp_all add: unescape_escape_byte)

lemma decode_Output_payload_base64:
  "decode_Output_payload (base64_encode b) =
     (case utf8_units (map (\<lambda>x. Octet (unat x)) b) of
        None \<Rightarrow> Inl URIError | Some text \<Rightarrow> Inr text)"
  using unescape_escaped [of b]
  by (simp add: decode_Output_payload_def atob_base64_encode decodeURIComponent_def)

subsection \<open>Arithmetic of UTF-8\<close>

lemma lead_mod:
  fixes q :: nat
  shows "(192 + q mod 32) mod 32 = q mod 32"
    "(224 + q mod 16) mod 16 = q mod 16"
    "(240 + q mod 8) mod 8 = q mod 8"
    "(128 + q mod 64) mod 64 = q mod 64"
  using mod_mult_self2 [of "q mod 32" 32 6] mod_mult_self2 [of "q mod 16" 16 14]
    mod_mult_self2 [of "q mod 8" 8 30] mod_mult_self2 [of "q mod 64" 64 2]
  by (simp_all add: add.commute)

lemma recombine:
  fixes v :: nat
  shows "v div 64 * 64 + v mod 64 = v"
    "v div 4096 * 4096 + (v div 64 mod 64 * 64 + v mod 64) = v"
    "v div 262144 * 262144 + (v div 4096 mod 64 * 4096 + (v div 64 mod 64 * 64 + v mod 64)) = v"
proof -
  show "v div 64 * 64 + v mod 64 = v" by simp
  have a: "v mod 4096 = 64 * (v div 64 mod 64) + v mod 64"
    using mod_mult2_eq [of v 64 64] by simp
  have b: "v mod 262144 = 4096 * (v div 4096 mod 64) + v mod 4096"
    using mod_mult2_eq [of v 4096 64] by simp
  have c: "v div 4096 * 4096 + v mod 4096 = v" "v div 262144 * 262144 + v mod 262144 = v"
    by simp_all
  from a c(1) show "v div 4096 * 4096 + (v div 64 mod 64 * 64 + v mod 64) = v"
    by (simp only: mult.commute)
  from a b c(2) show "v div 262144 * 262144 + (v div 4096 mod 64 * 4096 + (v div 64 mod 64 * 64 + v mod 64)) = v"
    by (simp only: mult.commute)
qed

lemma split2:
  fixes a c :: nat
  assumes "c < 64"
  shows "(a * 64 + c) div 64 = a" "(a * 64 + c) mod 64 = c"
  using assms by simp_all

lemma split3:
  fixes a b c :: nat
  assumes "b < 64" "c < 64"
  shows "(a * 4096 + (b * 64 + c)) div 4096 = a"
    "(a * 4096 + (b * 64 + c)) div 64 mod 64 = b"
    "(a * 4096 + (b * 64 + c)) mod 64 = c"
proof -
  have e: "a * 4096 + (b * 64 + c) = (a * 64 + b) * 64 + c" by simp
  from assms have l: "b * 64 + c < 4096" by simp
  show "(a * 4096 + (b * 64 + c)) div 4096 = a"
    using l by simp
  show "(a * 4096 + (b * 64 + c)) div 64 mod 64 = b"
    unfolding e using assms by (simp only: split2 [OF assms(2)] split2 [OF assms(1)])
  show "(a * 4096 + (b * 64 + c)) mod 64 = c"
    unfolding e using assms by (simp only: split2 [OF assms(2)])
qed

lemma split4:
  fixes a b c d :: nat
  assumes "b < 64" "c < 64" "d < 64"
  shows "(a * 262144 + (b * 4096 + (c * 64 + d))) div 262144 = a"
    "(a * 262144 + (b * 4096 + (c * 64 + d))) div 4096 mod 64 = b"
    "(a * 262144 + (b * 4096 + (c * 64 + d))) div 64 mod 64 = c"
    "(a * 262144 + (b * 4096 + (c * 64 + d))) mod 64 = d"
proof -
  have e: "a * 262144 + (b * 4096 + (c * 64 + d)) = (a * 64 + b) * 4096 + (c * 64 + d)"
    by simp
  from assms have l: "b * 4096 + (c * 64 + d) < 262144" by simp
  show "(a * 262144 + (b * 4096 + (c * 64 + d))) div 262144 = a"
    using l by simp
  show "(a * 262144 + (b * 4096 + (c * 64 + d))) div 4096 mod 64 = b"
    unfolding e by (simp only: split3 [OF assms(2,3)] split2 [OF assms(1)])
  show "(a * 262144 + (b * 4096 + (c * 64 + d))) div 64 mod 64 = c"
    unfolding e by (simp only: split3 [OF assms(2,3)])
  show "(a * 262144 + (b * 4096 + (c * 64 + d))) mod 64 = d"
    unfolding e by (simp only: split3 [OF assms(2,3)])
qed

subsection \<open>UTF-8 text is decoded; nothing else is\<close>

lemma continuation_tail: "continuation (128 + q mod 64)"
proof -
  have "q mod 64 < 64" by simp
  then show ?thesis unfolding continuation_def by linarith
qed

lemma utf8_units_one:
  assumes "v < 128"
  shows "utf8_units (Octet v # ts) = map_option (append (utf16_units v)) (utf8_units ts)"
proof -
  from assms have "utf16_units v = [of_nat v]" by (simp add: utf16_units_def)
  moreover have "append [of_nat v :: 16 word] = Cons (of_nat v)" by (simp add: fun_eq_iff)
  ultimately show ?thesis using assms by simp
qed

lemma utf8_units_two:
  assumes "128 \<le> v" "v < 2048"
  shows "utf8_units (Octet (192 + v div 64) # Octet (128 + v mod 64) # ts)
           = map_option (append (utf16_units v)) (utf8_units ts)"
proof -
  from assms have q: "v div 64 < 32" by simp
  then have m: "(192 + v div 64) mod 32 = v div 64"
    using lead_mod(1) [of "v div 64"] by simp
  have r: "(192 + v div 64) mod 32 * 64 + (128 + v mod 64) mod 64 = v"
    unfolding m lead_mod(4) by (rule recombine(1))
  have b: "\<not> 192 + v div 64 < 128" "\<not> 192 + v div 64 < 192" "192 + v div 64 < 224"
    using q by simp_all
  show ?thesis
    unfolding utf8_units.simps
    using assms by (simp only: b r continuation_tail if_True if_False Let_def list.case token.case simp_thms)
qed

lemma utf8_units_three:
  assumes "2048 \<le> v" "v < 65536" "\<not> (55296 \<le> v \<and> v < 57344)"
  shows "utf8_units (Octet (224 + v div 4096) # Octet (128 + v div 64 mod 64)
                       # Octet (128 + v mod 64) # ts)
           = map_option (append (utf16_units v)) (utf8_units ts)"
proof -
  from assms have q: "v div 4096 < 16" by simp
  then have m: "(224 + v div 4096) mod 16 = v div 4096"
    using lead_mod(2) [of "v div 4096"] by simp
  have r: "(224 + v div 4096) mod 16 * 4096 + (128 + v div 64 mod 64) mod 64 * 64
             + (128 + v mod 64) mod 64 = v"
    unfolding m lead_mod(4) using recombine(2) [of v] by simp
  have b: "\<not> 224 + v div 4096 < 128" "\<not> 224 + v div 4096 < 192"
    "\<not> 224 + v div 4096 < 224" "224 + v div 4096 < 240"
    using q by simp_all
  show ?thesis
    unfolding utf8_units.simps
    using assms by (simp only: b r continuation_tail if_True if_False Let_def list.case token.case simp_thms)
qed

lemma utf8_units_four:
  assumes "65536 \<le> v" "v < 1114112"
  shows "utf8_units (Octet (240 + v div 262144) # Octet (128 + v div 4096 mod 64)
                       # Octet (128 + v div 64 mod 64) # Octet (128 + v mod 64) # ts)
           = map_option (append (utf16_units v)) (utf8_units ts)"
proof -
  from assms have q: "v div 262144 < 8" by simp
  then have m: "(240 + v div 262144) mod 8 = v div 262144"
    using lead_mod(3) [of "v div 262144"] by simp
  have r: "(240 + v div 262144) mod 8 * 262144 + (128 + v div 4096 mod 64) mod 64 * 4096
             + (128 + v div 64 mod 64) mod 64 * 64 + (128 + v mod 64) mod 64 = v"
    unfolding m lead_mod(4) using recombine(3) [of v] by simp
  have b: "\<not> 240 + v div 262144 < 128" "\<not> 240 + v div 262144 < 192"
    "\<not> 240 + v div 262144 < 224" "\<not> 240 + v div 262144 < 240" "240 + v div 262144 < 248"
    using q by simp_all
  show ?thesis
    unfolding utf8_units.simps
    using assms by (simp only: b r continuation_tail if_True if_False Let_def list.case token.case simp_thms)
qed

lemma utf8_units_octets:
  assumes "scalar_value v"
  shows "utf8_units (map Octet (utf8_octets v) @ ts)
           = map_option (append (utf16_units v)) (utf8_units ts)"
proof -
  consider "v < 128" | "128 \<le> v" "v < 2048" | "2048 \<le> v" "v < 65536" | "65536 \<le> v"
    by linarith
  then show ?thesis
  proof cases
    case 1
    then show ?thesis by (simp add: utf8_octets_def utf8_units_one del: utf8_units.simps)
  next
    case 2
    then show ?thesis by (simp add: utf8_octets_def utf8_units_two del: utf8_units.simps)
  next
    case 3
    with assms have "\<not> (55296 \<le> v \<and> v < 57344)"
      unfolding scalar_value_def by linarith
    with 3 show ?thesis by (simp add: utf8_octets_def utf8_units_three del: utf8_units.simps)
  next
    case 4
    with assms have "v < 1114112"
      unfolding scalar_value_def by linarith
    with 4 show ?thesis by (simp add: utf8_octets_def utf8_units_four del: utf8_units.simps)
  qed
qed

lemma utf8_units_text:
  assumes "\<forall>v \<in> set cps. scalar_value v"
  shows "utf8_units (map Octet (concat (map utf8_octets cps))) = Some (concat (map utf16_units cps))"
  using assms
proof (induction cps)
  case Nil
  then show ?case by simp
next
  case (Cons v cps)
  then have "utf8_units (map Octet (utf8_octets v) @ map Octet (concat (map utf8_octets cps)))
      = Some (utf16_units v @ concat (map utf16_units cps))"
    by (simp add: utf8_units_octets del: utf8_units.simps)
  then show ?case by simp
qed

lemma lead_back:
  fixes B :: nat
  shows "192 \<le> B \<Longrightarrow> B < 224 \<Longrightarrow> 192 + B mod 32 = B"
    "224 \<le> B \<Longrightarrow> B < 240 \<Longrightarrow> 224 + B mod 16 = B"
    "240 \<le> B \<Longrightarrow> B < 248 \<Longrightarrow> 240 + B mod 8 = B"
    "128 \<le> B \<Longrightarrow> B < 192 \<Longrightarrow> 128 + B mod 64 = B"
proof -
  show "192 + B mod 32 = B" if "192 \<le> B" "B < 224"
  proof -
    from that have "B = 192 + (B - 192)" "B - 192 < 32" by simp_all
    then obtain k where k: "B = 192 + k" "k < 32" by blast
    with lead_mod(1) [of k] show ?thesis by simp
  qed
  show "224 + B mod 16 = B" if "224 \<le> B" "B < 240"
  proof -
    from that have "B = 224 + (B - 224)" "B - 224 < 16" by simp_all
    then obtain k where k: "B = 224 + k" "k < 16" by blast
    with lead_mod(2) [of k] show ?thesis by simp
  qed
  show "240 + B mod 8 = B" if "240 \<le> B" "B < 248"
  proof -
    from that have "B = 240 + (B - 240)" "B - 240 < 8" by simp_all
    then obtain k where k: "B = 240 + k" "k < 8" by blast
    with lead_mod(3) [of k] show ?thesis by simp
  qed
  show "128 + B mod 64 = B" if "128 \<le> B" "B < 192"
  proof -
    from that have "B = 128 + (B - 128)" "B - 128 < 64" by simp_all
    then obtain k where k: "B = 128 + k" "k < 64" by blast
    with lead_mod(4) [of k] show ?thesis by simp
  qed
qed

lemma octets_two:
  assumes "192 \<le> B" "B < 224" "continuation b2" "128 \<le> (B mod 32) * 64 + b2 mod 64"
  shows "utf8_octets ((B mod 32) * 64 + b2 mod 64) = [B, b2]
       \<and> scalar_value ((B mod 32) * 64 + b2 mod 64)"
proof -
  define v where "v = (B mod 32) * 64 + b2 mod 64"
  have c: "b2 mod 64 < 64" by simp
  have d: "v div 64 = B mod 32" "v mod 64 = b2 mod 64"
    unfolding v_def by (rule split2 [OF c])+
  have "B mod 32 \<le> 31" by simp
  then have "(B mod 32) * 64 \<le> 31 * 64" by (rule mult_le_mono1)
  with c have lt: "v < 2048" unfolding v_def by linarith
  from assms(4) have ge: "128 \<le> v" by (simp add: v_def)
  from assms(3) have t: "128 + b2 mod 64 = b2"
    by (simp add: continuation_def lead_back(4))
  have "utf8_octets v = [B, b2]"
    using ge lt by (simp add: utf8_octets_def d lead_back(1) [OF assms(1,2)] t)
  moreover have "scalar_value v"
    using lt by (simp add: scalar_value_def)
  ultimately show ?thesis unfolding v_def by blast
qed

lemma octets_three:
  assumes "224 \<le> B" "B < 240" "continuation b2" "continuation b3"
    "2048 \<le> (B mod 16) * 4096 + (b2 mod 64) * 64 + b3 mod 64"
    "\<not> (55296 \<le> (B mod 16) * 4096 + (b2 mod 64) * 64 + b3 mod 64
        \<and> (B mod 16) * 4096 + (b2 mod 64) * 64 + b3 mod 64 < 57344)"
  shows "utf8_octets ((B mod 16) * 4096 + (b2 mod 64) * 64 + b3 mod 64) = [B, b2, b3]
       \<and> scalar_value ((B mod 16) * 4096 + (b2 mod 64) * 64 + b3 mod 64)"
proof -
  define v where "v = (B mod 16) * 4096 + ((b2 mod 64) * 64 + b3 mod 64)"
  have v: "(B mod 16) * 4096 + (b2 mod 64) * 64 + b3 mod 64 = v"
    by (simp add: v_def)
  have c: "b2 mod 64 < 64" "b3 mod 64 < 64" by simp_all
  have d: "v div 4096 = B mod 16" "v div 64 mod 64 = b2 mod 64" "v mod 64 = b3 mod 64"
    unfolding v_def by (rule split3 [OF c])+
  have "B mod 16 \<le> 15" by simp
  then have "(B mod 16) * 4096 \<le> 15 * 4096" by (rule mult_le_mono1)
  moreover have "b2 mod 64 \<le> 63" by simp
  then have "(b2 mod 64) * 64 \<le> 63 * 64" by (rule mult_le_mono1)
  ultimately have lt: "v < 65536" using c(2) unfolding v_def by linarith
  from assms(5) have ge: "2048 \<le> v" by (simp only: v)
  have ns: "\<not> (55296 \<le> v \<and> v < 57344)" using assms(6) unfolding v by simp
  from assms(3,4) have t: "128 + b2 mod 64 = b2" "128 + b3 mod 64 = b3"
    by (simp_all add: continuation_def lead_back(4))
  have "utf8_octets v = [B, b2, b3]"
    using ge lt by (simp add: utf8_octets_def d lead_back(2) [OF assms(1,2)] t)
  moreover have "scalar_value v"
    using ns lt unfolding scalar_value_def by linarith
  ultimately show ?thesis unfolding v by blast
qed

lemma octets_four:
  assumes "240 \<le> B" "B < 248" "continuation b2" "continuation b3" "continuation b4"
    "65536 \<le> (B mod 8) * 262144 + (b2 mod 64) * 4096 + (b3 mod 64) * 64 + b4 mod 64"
    "(B mod 8) * 262144 + (b2 mod 64) * 4096 + (b3 mod 64) * 64 + b4 mod 64 < 1114112"
  shows "utf8_octets ((B mod 8) * 262144 + (b2 mod 64) * 4096 + (b3 mod 64) * 64 + b4 mod 64)
           = [B, b2, b3, b4]
       \<and> scalar_value ((B mod 8) * 262144 + (b2 mod 64) * 4096 + (b3 mod 64) * 64 + b4 mod 64)"
proof -
  define v where "v = (B mod 8) * 262144 + ((b2 mod 64) * 4096 + ((b3 mod 64) * 64 + b4 mod 64))"
  have v: "(B mod 8) * 262144 + (b2 mod 64) * 4096 + (b3 mod 64) * 64 + b4 mod 64 = v"
    by (simp add: v_def)
  have c: "b2 mod 64 < 64" "b3 mod 64 < 64" "b4 mod 64 < 64" by simp_all
  have d: "v div 262144 = B mod 8" "v div 4096 mod 64 = b2 mod 64"
    "v div 64 mod 64 = b3 mod 64" "v mod 64 = b4 mod 64"
    unfolding v_def by (rule split4 [OF c])+
  from assms(6) have ge: "65536 \<le> v" by (simp only: v)
  from assms(7) have lt: "v < 1114112" by (simp only: v)
  from assms(3,4,5) have t: "128 + b2 mod 64 = b2" "128 + b3 mod 64 = b3" "128 + b4 mod 64 = b4"
    by (simp_all add: continuation_def lead_back(4))
  have "utf8_octets v = [B, b2, b3, b4]"
    using ge by (simp add: utf8_octets_def d lead_back(3) [OF assms(1,2)] t)
  moreover have "scalar_value v"
    using ge lt unfolding scalar_value_def by linarith
  ultimately show ?thesis unfolding v by blast
qed

lemma inv_one:
  assumes "B < 128" "utf8_units (Octet B # ts) = Some s"
  shows "\<exists>s'. utf8_units ts = Some s' \<and> s = utf16_units B @ s'"
  using assms by (auto simp: utf16_units_def)

lemma inv_two:
  assumes "192 \<le> B" "B < 224" "utf8_units (Octet B # ts) = Some s"
  shows "\<exists>b2 r s'. ts = Octet b2 # r \<and> continuation b2
           \<and> 128 \<le> (B mod 32) * 64 + b2 mod 64 \<and> utf8_units r = Some s'
           \<and> s = utf16_units ((B mod 32) * 64 + b2 mod 64) @ s'"
proof -
  from assms(1) have n: "\<not> B < 128" "\<not> B < 192" by simp_all
  from assms(3) have
    "(case ts of
        Octet b2 # r \<Rightarrow>
          (let v = (B mod 32) * 64 + b2 mod 64 in
           if continuation b2 \<and> 0x80 \<le> v
           then map_option (append (utf16_units v)) (utf8_units r) else None)
      | _ \<Rightarrow> None) = Some s"
    by (simp only: utf8_units.simps n assms(2) if_True if_False)
  then show ?thesis
    by (auto simp: Let_def split: list.splits token.splits if_splits)
qed

lemma inv_three:
  assumes "224 \<le> B" "B < 240" "utf8_units (Octet B # ts) = Some s"
  shows "\<exists>b2 b3 r s'. ts = Octet b2 # Octet b3 # r \<and> continuation b2 \<and> continuation b3
           \<and> 2048 \<le> (B mod 16) * 4096 + (b2 mod 64) * 64 + b3 mod 64
           \<and> \<not> (55296 \<le> (B mod 16) * 4096 + (b2 mod 64) * 64 + b3 mod 64
                 \<and> (B mod 16) * 4096 + (b2 mod 64) * 64 + b3 mod 64 < 57344)
           \<and> utf8_units r = Some s'
           \<and> s = utf16_units ((B mod 16) * 4096 + (b2 mod 64) * 64 + b3 mod 64) @ s'"
proof -
  from assms(1) have n: "\<not> B < 128" "\<not> B < 192" "\<not> B < 224" by simp_all
  from assms(3) have
    "(case ts of
        Octet b2 # Octet b3 # r \<Rightarrow>
          (let v = (B mod 16) * 4096 + (b2 mod 64) * 64 + b3 mod 64 in
           if continuation b2 \<and> continuation b3 \<and> 0x800 \<le> v
                \<and> \<not> (0xD800 \<le> v \<and> v < 0xE000)
           then map_option (append (utf16_units v)) (utf8_units r) else None)
      | _ \<Rightarrow> None) = Some s"
    by (simp only: utf8_units.simps n assms(2) if_True if_False)
  then show ?thesis
    by (auto simp: Let_def split: list.splits token.splits if_splits)
qed

lemma inv_four:
  assumes "240 \<le> B" "B < 248" "utf8_units (Octet B # ts) = Some s"
  shows "\<exists>b2 b3 b4 r s'. ts = Octet b2 # Octet b3 # Octet b4 # r
           \<and> continuation b2 \<and> continuation b3 \<and> continuation b4
           \<and> 65536 \<le> (B mod 8) * 262144 + (b2 mod 64) * 4096 + (b3 mod 64) * 64 + b4 mod 64
           \<and> (B mod 8) * 262144 + (b2 mod 64) * 4096 + (b3 mod 64) * 64 + b4 mod 64 < 1114112
           \<and> utf8_units r = Some s'
           \<and> s = utf16_units ((B mod 8) * 262144 + (b2 mod 64) * 4096 + (b3 mod 64) * 64
                     + b4 mod 64) @ s'"
proof -
  from assms(1) have n: "\<not> B < 128" "\<not> B < 192" "\<not> B < 224" "\<not> B < 240" by simp_all
  from assms(3) have
    "(case ts of
        Octet b2 # Octet b3 # Octet b4 # r \<Rightarrow>
          (let v = (B mod 8) * 262144 + (b2 mod 64) * 4096 + (b3 mod 64) * 64 + b4 mod 64 in
           if continuation b2 \<and> continuation b3 \<and> continuation b4
                \<and> 0x10000 \<le> v \<and> v < 0x110000
           then map_option (append (utf16_units v)) (utf8_units r) else None)
      | _ \<Rightarrow> None) = Some s"
    by (simp only: utf8_units.simps n assms(2) if_True if_False)
  then show ?thesis
    by (auto simp: Let_def split: list.splits token.splits if_splits)
qed

lemma inv_none:
  assumes "(128 \<le> B \<and> B < 192) \<or> 248 \<le> B"
  shows "utf8_units (Octet B # ts) = None"
  using assms by auto

lemma utf8_units_sound:
  "utf8_units (map Octet ns) = Some s \<Longrightarrow>
     \<exists>cps. (\<forall>v \<in> set cps. scalar_value v) \<and> ns = concat (map utf8_octets cps)
        \<and> s = concat (map utf16_units cps)"
proof (induction ns arbitrary: s rule: length_induct)
  case (1 ns)
  note IH = "1.IH" [rule_format]
  show ?case
  proof (cases ns)
    case Nil
    with "1.prems" have "s = []" by simp
    with Nil have "(\<forall>v \<in> set []. scalar_value v) \<and> ns = concat (map utf8_octets [])
        \<and> s = concat (map utf16_units [])" by simp
    then show ?thesis by blast
  next
    case (Cons B rest)
    with "1.prems" have dec: "utf8_units (Octet B # map Octet rest) = Some s" by simp
    have step: ?thesis
      if "rest = pre @ rest'" "utf8_units (map Octet rest') = Some s'"
        "utf8_octets v = B # pre" "scalar_value v" "s = utf16_units v @ s'"
      for pre rest' s' v
    proof -
      from that(1) Cons have "length rest' < length ns" by simp
      from IH [OF this that(2)] obtain cps where
        cps: "\<forall>v \<in> set cps. scalar_value v" "rest' = concat (map utf8_octets cps)"
          "s' = concat (map utf16_units cps)" by blast
      from cps that Cons
      have "(\<forall>v \<in> set (v # cps). scalar_value v) \<and> ns = concat (map utf8_octets (v # cps))
          \<and> s = concat (map utf16_units (v # cps))" by simp
      then show ?thesis by blast
    qed
    consider "B < 128" | "128 \<le> B \<and> B < 192" | "192 \<le> B" "B < 224"
      | "224 \<le> B" "B < 240" | "240 \<le> B" "B < 248" | "248 \<le> B"
      by linarith
    then show ?thesis
    proof cases
      case 1
      from inv_one [OF 1 dec] obtain s' where
        s': "utf8_units (map Octet rest) = Some s'" "s = utf16_units B @ s'" by blast
      from 1 have "utf8_octets B = B # []" "scalar_value B"
        by (simp_all add: utf8_octets_def scalar_value_def)
      from step [of "[]" rest s' B] s' this show ?thesis by simp
    next
      case 2
      then have "utf8_units (Octet B # map Octet rest) = None"
        by (simp add: inv_none)
      with dec show ?thesis by simp
    next
      case 3
      from inv_two [OF 3 dec] obtain b2 r s' where
        x: "map Octet rest = Octet b2 # r" "continuation b2"
          "128 \<le> (B mod 32) * 64 + b2 mod 64" "utf8_units r = Some s'"
          "s = utf16_units ((B mod 32) * 64 + b2 mod 64) @ s'" by auto
      from x(1) obtain rest' where r: "rest = [b2] @ rest'" "r = map Octet rest'"
        by (auto simp: map_eq_Cons_conv)
      from octets_two [OF 3 x(2,3)] step [OF r(1) x(4) [unfolded r(2)] _ _ x(5)]
      show ?thesis by simp
    next
      case 4
      from inv_three [OF 4 dec] obtain b2 b3 r s' where
        x: "map Octet rest = Octet b2 # Octet b3 # r" "continuation b2" "continuation b3"
          "2048 \<le> (B mod 16) * 4096 + (b2 mod 64) * 64 + b3 mod 64"
          "\<not> (55296 \<le> (B mod 16) * 4096 + (b2 mod 64) * 64 + b3 mod 64
             \<and> (B mod 16) * 4096 + (b2 mod 64) * 64 + b3 mod 64 < 57344)"
          "utf8_units r = Some s'"
          "s = utf16_units ((B mod 16) * 4096 + (b2 mod 64) * 64 + b3 mod 64) @ s'" by auto
      from x(1) obtain rest' where r: "rest = [b2, b3] @ rest'" "r = map Octet rest'"
        by (auto simp: map_eq_Cons_conv)
      from octets_three [OF 4 x(2,3,4,5)] step [OF r(1) x(6) [unfolded r(2)] _ _ x(7)]
      show ?thesis by simp
    next
      case 5
      from inv_four [OF 5 dec] obtain b2 b3 b4 r s' where
        x: "map Octet rest = Octet b2 # Octet b3 # Octet b4 # r"
          "continuation b2" "continuation b3" "continuation b4"
          "65536 \<le> (B mod 8) * 262144 + (b2 mod 64) * 4096 + (b3 mod 64) * 64 + b4 mod 64"
          "(B mod 8) * 262144 + (b2 mod 64) * 4096 + (b3 mod 64) * 64 + b4 mod 64 < 1114112"
          "utf8_units r = Some s'"
          "s = utf16_units ((B mod 8) * 262144 + (b2 mod 64) * 4096 + (b3 mod 64) * 64
                 + b4 mod 64) @ s'" by auto
      from x(1) obtain rest' where r: "rest = [b2, b3, b4] @ rest'" "r = map Octet rest'"
        by (auto simp: map_eq_Cons_conv)
      from octets_four [OF 5 x(2,3,4,5,6)] step [OF r(1) x(7) [unfolded r(2)] _ _ x(8)]
      show ?thesis by simp
    next
      case 6
      then have "utf8_units (Octet B # map Octet rest) = None"
        by (simp add: inv_none)
      with dec show ?thesis by simp
    qed
  qed
qed

lemma utf8_octets_bytes:
  assumes "scalar_value v"
  shows "\<forall>n \<in> set (utf8_octets v). n < 256"
proof -
  have "v mod 64 < 64" "v div 64 mod 64 < 64" "v div 4096 mod 64 < 64" by simp_all
  then have m: "128 + v mod 64 < 256" "128 + v div 64 mod 64 < 256"
    "128 + v div 4096 mod 64 < 256" by linarith+
  consider "v < 128" | "128 \<le> v" "v < 2048" | "2048 \<le> v" "v < 65536" | "65536 \<le> v"
    by linarith
  then show ?thesis
  proof cases
    case 1
    then show ?thesis by (simp add: utf8_octets_def)
  next
    case 2
    then have "v div 64 < 32" by simp
    with 2 m show ?thesis by (simp add: utf8_octets_def)
  next
    case 3
    then have "v div 4096 < 16" by simp
    with 3 m show ?thesis by (simp add: utf8_octets_def)
  next
    case 4
    with assms have "v < 1114112" unfolding scalar_value_def by linarith
    then have "v div 262144 < 8" by simp
    with 4 m show ?thesis by (simp add: utf8_octets_def)
  qed
qed

subsection \<open>The round trip of an Output frame\<close>

lemma octets_of_text:
  assumes "\<forall>v \<in> set cps. scalar_value v"
  shows "map (\<lambda>x. Octet (unat x)) (concat (map utf8_encode cps))
           = map Octet (concat (map utf8_octets cps))"
  using assms
proof (induction cps)
  case Nil
  then show ?case by simp
next
  case (Cons v cps)
  then have "scalar_value v" by simp
  then have "\<forall>n \<in> set (utf8_octets v). n < 256"
    by (rule utf8_octets_bytes)
  then have "map (\<lambda>x. Octet (unat x)) (utf8_encode v) = map Octet (utf8_octets v)"
    by (simp add: utf8_encode_def unat_of_nat8)
  with Cons show ?case by simp
qed

lemma text_of_octets:
  assumes "map unat b = concat (map utf8_octets cps)"
  shows "(b :: 8 word list) = concat (map utf8_encode cps)"
proof -
  have "b = map of_nat (map unat b)"
    by (simp add: map_idI)
  also have "\<dots> = map of_nat (concat (map utf8_octets cps))"
    by (simp only: assms)
  also have "\<dots> = concat (map utf8_encode cps)"
    by (induction cps) (simp_all add: utf8_encode_def)
  finally show ?thesis .
qed

lemma onReceive_encode_Output:
  "onReceive bi w (encode_Output b) =
     (case utf8_units (map (\<lambda>x. Octet (unat x)) b) of
        None \<Rightarrow> Inl URIError | Some text \<Rightarrow> Inr (w, [TermWrite text]))"
proof -
  have "encode_Output b = Output @ base64_encode b"
    by (simp add: encode_Output_def Output_def)
  then show ?thesis
    by (simp add: onReceive_kind kinds_length decode_Output_payload_base64 split: option.splits)
qed

text \<open>
  C2, as stated, fails: the Output frame of the single byte \<open>0xFF\<close> is not decoded to that
  byte; the receive handler throws \<^verbatim>\<open>URIError\<close> and writes nothing.
\<close>

theorem Output_of_invalid_utf8_throws:
  "onReceive sample_builtins (WebTTY_new [] []) (encode_Output [0xFF]) = Inl URIError"
  by (simp add: onReceive_encode_Output)

text \<open>
  C2, amended. For every byte sequence that is the UTF-8 encoding of a text (a sequence of
  Unicode scalar values: the empty sequence, all bytes below \<open>0x80\<close>, control bytes
  included, and every well-formed multi-byte sequence), the receive handler applied to the
  server's Output frame of these bytes writes exactly that text (in UTF-16) to the terminal.
  Conversely, whenever the handler accepts an Output frame of bytes \<open>b\<close>, then \<open>b\<close> is the
  UTF-8 encoding of the text it writes; on every other byte sequence it throws \<^verbatim>\<open>URIError\<close>
  and writes nothing.
\<close>

theorem Output_round_trip_utf8:
  "((\<forall>v \<in> set cps. scalar_value v) \<longrightarrow>
      onReceive bi w (encode_Output (concat (map utf8_encode cps)))
        = Inr (w, [TermWrite (concat (map utf16_units cps))]))
   \<and> (onReceive bi w (encode_Output b) = Inr (w', cs) \<longrightarrow>
        (\<exists>t. (\<forall>v \<in> set t. scalar_value v) \<and> b = concat (map utf8_encode t)
           \<and> w' = w \<and> cs = [TermWrite (concat (map utf16_units t))]))
   \<and> (onReceive bi w (encode_Output b) = Inl e \<longrightarrow> e = URIError)"
proof -
  have 1: "onReceive bi w (encode_Output (concat (map utf8_encode cps)))
        = Inr (w, [TermWrite (concat (map utf16_units cps))])"
    if "\<forall>v \<in> set cps. scalar_value v"
    using that
    by (simp add: onReceive_encode_Output octets_of_text utf8_units_text del: utf8_units.simps)
  have 2: "\<exists>t. (\<forall>v \<in> set t. scalar_value v) \<and> b = concat (map utf8_encode t)
           \<and> w' = w \<and> cs = [TermWrite (concat (map utf16_units t))]"
    if "onReceive bi w (encode_Output b) = Inr (w', cs)"
  proof -
    from that obtain s where
      s: "utf8_units (map Octet (map unat b)) = Some s" "w' = w" "cs = [TermWrite s]"
      by (auto simp: onReceive_encode_Output comp_def split: option.splits)
    from utf8_units_sound [OF s(1)] obtain cps' where
      t: "\<forall>v \<in> set cps'. scalar_value v" "map unat b = concat (map utf8_octets cps')"
        "s = concat (map utf16_units cps')" by blast
    from t s text_of_octets [OF t(2)] show ?thesis by blast
  qed
  have 3: "e = URIError" if "onReceive bi w (encode_Output b) = Inl e"
    using that by (auto simp: onReceive_encode_Output split: option.splits)
  from 1 2 3 show ?thesis by blast
qed

theorem Output_round_trip_utf8_witness:
  "onReceive sample_builtins (WebTTY_new [] []) (encode_Output [0xE2, 0x82, 0xAC, 0x0A])
     = Inr (WebTTY_new [] [], [TermWrite [0x20AC, 0x0A]])"
proof -
  have a: "\<forall>v \<in> set [0x20AC, 0x0A :: nat]. scalar_value v"
    by (simp add: scalar_value_def)
  have b: "concat (map utf8_encode [0x20AC, 0x0A]) = [0xE2, 0x82, 0xAC, 0x0A]"
    by (simp add: utf8_encode_def utf8_octets_def)
  have c: "concat (map utf16_units [0x20AC, 0x0A]) = [0x20AC, 0x0A]"
    by (simp add: utf16_units_def)
  from Output_round_trip_utf8 [of "[0x20AC, 0x0A]" sample_builtins "WebTTY_new [] []"] a
  have "onReceive sample_builtins (WebTTY_new [] [])
          (encode_Output (concat (map utf8_encode [0x20AC, 0x0A])))
        = Inr (WebTTY_new [] [], [TermWrite (concat (map utf16_units [0x20AC, 0x0A]))])"
    by blast
  then show ?thesis by (simp only: b c)
qed

end
